theory Spec2Isabelle
  imports Complex_Main
begin

text \<open>
  The repository holds the App component three times: in src/App.tsx, in
  src/unnamed/part_001 and as the first file of src/unnamed/part_002. getFlow is the same
  in all three. calculateCapacity, validateSystem and the edge-adding callback of
  part_001 agree with src/App.tsx; those of part_002 differ. A function of src/App.tsx
  has the suffix \<open>_App\<close> below, one of part_002 the suffix \<open>_part002\<close>.
\<close>

section \<open>Data model (types.ts)\<close>

text \<open>
  The enums of types.ts are datatypes, the interfaces are records. Record fields carry a
  prefix (\<open>n_\<close> for AppNode, \<open>e_\<close> for AppEdge, \<open>pd_\<close> for PipeData, \<open>v_\<close> for a
  verdict, \<open>s_\<close> for the component state), because \<open>id\<close>, \<open>from\<close>, \<open>size\<close> and
  \<open>exp\<close> are taken in Isabelle/HOL. The optional display attributes of a meter
  (supplyPressure, gasType) are left out: no function below reads them.
\<close>

datatype NodeType = METER | JUNCTION | MANIFOLD | APPLIANCE

datatype PipeSize = THREE_EIGHTHS | HALF | THREE_QUARTERS | ONE | ONE_AND_QUARTER

record PipeData =
  pd_size :: PipeSize
  pd_coeff :: real
  pd_exp :: real
  pd_capacity :: real

record AppNode =
  n_id :: string
  n_type :: NodeType
  n_x :: real
  n_y :: real
  n_name :: string
  n_btu :: real

record AppEdge =
  e_id :: string
  e_from :: string
  e_to :: string
  e_size :: PipeSize
  e_length :: real

section \<open>JavaScript numbers\<close>

text \<open>
  A JavaScript number is an IEEE double. The model keeps the special values and is exact on
  the finite ones: \<open>Fin x\<close> is the finite number \<open>x\<close>, computed without rounding and
  without overflow, and the two zeros are one (\<open>Fin 0\<close>, read as \<open>+0\<close>). The
  operations follow ECMAScript (Number::divide, Number::multiply, Number::exponentiate,
  Math.floor and the relational comparison) on these values. Numbers that come from the
  graph snapshot (btu, length, the pressure drop) are finite and are plain reals.
\<close>

datatype jsnum = Fin real | PosInf | NegInf | NaN

fun js_div :: "jsnum \<Rightarrow> jsnum \<Rightarrow> jsnum" where
  "js_div NaN b = NaN"
| "js_div a NaN = NaN"
| "js_div (Fin x) (Fin y) =
     (if y = 0 then (if x = 0 then NaN else if 0 < x then PosInf else NegInf)
      else Fin (x / y))"
| "js_div (Fin x) PosInf = Fin 0"
| "js_div (Fin x) NegInf = Fin 0"
| "js_div PosInf (Fin y) = (if y < 0 then NegInf else PosInf)"
| "js_div NegInf (Fin y) = (if y < 0 then PosInf else NegInf)"
| "js_div PosInf PosInf = NaN"
| "js_div PosInf NegInf = NaN"
| "js_div NegInf PosInf = NaN"
| "js_div NegInf NegInf = NaN"

fun js_mul :: "jsnum \<Rightarrow> jsnum \<Rightarrow> jsnum" where
  "js_mul NaN b = NaN"
| "js_mul a NaN = NaN"
| "js_mul (Fin x) (Fin y) = Fin (x * y)"
| "js_mul (Fin x) PosInf = (if x = 0 then NaN else if 0 < x then PosInf else NegInf)"
| "js_mul (Fin x) NegInf = (if x = 0 then NaN else if 0 < x then NegInf else PosInf)"
| "js_mul PosInf (Fin y) = (if y = 0 then NaN else if 0 < y then PosInf else NegInf)"
| "js_mul NegInf (Fin y) = (if y = 0 then NaN else if 0 < y then NegInf else PosInf)"
| "js_mul PosInf PosInf = PosInf"
| "js_mul PosInf NegInf = NegInf"
| "js_mul NegInf PosInf = NegInf"
| "js_mul NegInf NegInf = PosInf"

definition isOddInteger :: "real \<Rightarrow> bool" where
  "isOddInteger y = (of_int \<lfloor>y\<rfloor> = y \<and> odd \<lfloor>y\<rfloor>)"

text \<open>
  Math.pow. A negative base with an exponent that is not an integer gives NaN; a positive
  base gives the real power.
\<close>

fun js_pow :: "jsnum \<Rightarrow> jsnum \<Rightarrow> jsnum" where
  "js_pow b NaN = NaN"
| "js_pow b (Fin y) =
     (if y = 0 then Fin 1
      else (case b of
              NaN \<Rightarrow> NaN
            | PosInf \<Rightarrow> if 0 < y then PosInf else Fin 0
            | NegInf \<Rightarrow> if 0 < y then (if isOddInteger y then NegInf else PosInf) else Fin 0
            | Fin x \<Rightarrow>
                if x = 0 then (if 0 < y then Fin 0 else PosInf)
                else if x < 0 then (if of_int \<lfloor>y\<rfloor> = y then Fin (x powi \<lfloor>y\<rfloor>) else NaN)
                else Fin (x powr y)))"
| "js_pow b PosInf =
     (case b of
        NaN \<Rightarrow> NaN
      | PosInf \<Rightarrow> PosInf
      | NegInf \<Rightarrow> PosInf
      | Fin x \<Rightarrow> if 1 < \<bar>x\<bar> then PosInf else if \<bar>x\<bar> = 1 then NaN else Fin 0)"
| "js_pow b NegInf =
     (case b of
        NaN \<Rightarrow> NaN
      | PosInf \<Rightarrow> Fin 0
      | NegInf \<Rightarrow> Fin 0
      | Fin x \<Rightarrow> if x = 0 then PosInf else if 1 < \<bar>x\<bar> then Fin 0
                 else if \<bar>x\<bar> = 1 then NaN else PosInf)"

fun js_floor :: "jsnum \<Rightarrow> jsnum" where
  "js_floor (Fin x) = Fin (of_int \<lfloor>x\<rfloor>)"
| "js_floor a = a"

text \<open>\<open>a <= b\<close> and \<open>a > b\<close>: both are false as soon as one side is NaN.\<close>

fun js_le :: "jsnum \<Rightarrow> jsnum \<Rightarrow> bool" where
  "js_le NaN b = False"
| "js_le a NaN = False"
| "js_le (Fin x) (Fin y) = (x \<le> y)"
| "js_le NegInf b = True"
| "js_le a PosInf = True"
| "js_le a b = False"

fun js_gt :: "jsnum \<Rightarrow> jsnum \<Rightarrow> bool" where
  "js_gt NaN b = False"
| "js_gt a NaN = False"
| "js_gt a b = (\<not> js_le a b)"

section \<open>The pipe size table (constants.ts)\<close>

definition PIPE_SPECS :: "PipeSize \<Rightarrow> PipeData option" where
  "PIPE_SPECS size' =
     (case size' of
        THREE_EIGHTHS \<Rightarrow> Some \<lparr>pd_size = THREE_EIGHTHS, pd_coeff = 0.00002158927,
                                pd_exp = 2.02558185, pd_capacity = 46000\<rparr>
      | HALF \<Rightarrow> Some \<lparr>pd_size = HALF, pd_coeff = 0.00000410606,
                       pd_exp = 2.1590935, pd_capacity = 77000\<rparr>
      | THREE_QUARTERS \<Rightarrow> Some \<lparr>pd_size = THREE_QUARTERS, pd_coeff = 0.00000123682,
                                 pd_exp = 2.00156167, pd_capacity = 200000\<rparr>
      | ONE \<Rightarrow> Some \<lparr>pd_size = ONE, pd_coeff = 0.0000010746,
                      pd_exp = 1.77654817, pd_capacity = 423000\<rparr>
      | ONE_AND_QUARTER \<Rightarrow> Some \<lparr>pd_size = ONE_AND_QUARTER,
                                  pd_coeff = 0.00000011678553403503,
                                  pd_exp = 1.992081557687, pd_capacity = 662000\<rparr>)"

definition PIPE_ORDER :: "PipeSize list" where
  "PIPE_ORDER = [THREE_EIGHTHS, HALF, THREE_QUARTERS, ONE, ONE_AND_QUARTER]"

text \<open>Array.prototype.indexOf: the first index of the element, \<open>-1\<close> when it is absent.\<close>

fun indexOf :: "'a list \<Rightarrow> 'a \<Rightarrow> int" where
  "indexOf [] x = - 1"
| "indexOf (y # ys) x =
     (if y = x then 0 else (let i = indexOf ys x in if i < 0 then - 1 else i + 1))"

text \<open>The string value of a PipeSize member (\<open>CHR 0x22\<close> is the inch mark).\<close>

definition sizeName :: "PipeSize \<Rightarrow> string" where
  "sizeName size' =
     (case size' of
        THREE_EIGHTHS \<Rightarrow> ''3/8'' @ [CHR 0x22]
      | HALF \<Rightarrow> ''1/2'' @ [CHR 0x22]
      | THREE_QUARTERS \<Rightarrow> ''3/4'' @ [CHR 0x22]
      | ONE \<Rightarrow> ''1'' @ [CHR 0x22]
      | ONE_AND_QUARTER \<Rightarrow> ''1-1/4'' @ [CHR 0x22])"

section \<open>The component state\<close>

text \<open>
  The React state the functions below read and write. A verdict is the object stored per
  edge id in \<open>validation\<close>; \<open>v_error = None\<close> is an absent or undefined \<open>error\<close>.
\<close>

record Verdict =
  v_isValid :: bool
  v_flow :: real
  v_capacity :: jsnum
  v_error :: "string option"

record AppState =
  s_nodes :: "AppNode list"
  s_edges :: "AppEdge list"
  s_pressureDrop :: real
  s_selectedPipeSize :: PipeSize
  s_selectedId :: "string option"
  s_validation :: "string \<rightharpoonup> Verdict"

section \<open>Capacity model: calculateCapacity\<close>

text \<open>
  src/App.tsx, lines 82-87 (the same body stands in the App component of part_001):
  \<^verbatim>\<open>if (!spec || length <= 0) return 0;\<close> comes before the formula.
\<close>

definition calculateCapacity_App :: "real \<Rightarrow> PipeSize \<Rightarrow> real \<Rightarrow> jsnum" where
  "calculateCapacity_App pressureDrop size' length' =
     (case PIPE_SPECS size' of
        None \<Rightarrow> Fin 0
      | Some spec \<Rightarrow>
          if length' \<le> 0 then Fin 0
          else (let cfh = js_pow (js_div (js_div (Fin pressureDrop) (Fin length'))
                                         (Fin (pd_coeff spec)))
                                 (js_div (Fin 1) (Fin (pd_exp spec)))
                in js_mul (js_floor cfh) (Fin 1000)))"

text \<open>
  The App component of part_002 (lines 29-37): only \<^verbatim>\<open>if (!spec) return 0;\<close>
  guards the formula.
\<close>

definition calculateCapacity_part002 :: "real \<Rightarrow> PipeSize \<Rightarrow> real \<Rightarrow> jsnum" where
  "calculateCapacity_part002 pressureDrop size' length' =
     (case PIPE_SPECS size' of
        None \<Rightarrow> Fin 0
      | Some spec \<Rightarrow>
          (let cfh = js_pow (js_div (js_div (Fin pressureDrop) (Fin length'))
                                    (Fin (pd_coeff spec)))
                            (js_div (Fin 1) (Fin (pd_exp spec)))
           in js_mul (js_floor cfh) (Fin 1000)))"

section \<open>Demand propagator: getFlow\<close>

text \<open>
  \<^verbatim>\<open>outboundEdges.forEach(out => { flow += getFlow(out.id); })\<close>: the running sum,
  where \<open>g\<close> is the recursive call. A call that does not return (\<open>None\<close>) ends the loop
  without a result.
\<close>

primrec addFlows :: "(string \<Rightarrow> real option) \<Rightarrow> real \<Rightarrow> AppEdge list \<Rightarrow> real option" where
  "addFlows g flow [] = Some flow"
| "addFlows g flow (out # outs) =
     (case g (e_id out) of
        None \<Rightarrow> None
      | Some f \<Rightarrow> addFlows g (flow + f) outs)"

text \<open>
  getFlow is the same closure in all three App components. It is recursive with no bound
  of its own, so the model carries fuel: the number of nested calls the stack has room
  for. \<open>None\<close> is a recursion that did not return within that depth; in the browser it
  ends in a RangeError (stack overflow).
\<close>

primrec getFlow :: "nat \<Rightarrow> AppNode list \<Rightarrow> AppEdge list \<Rightarrow> string \<Rightarrow> real option" where
  "getFlow 0 nodes edges edgeId = None"
| "getFlow (Suc fuel) nodes edges edgeId =
     (case find (\<lambda>e. e_id e = edgeId) edges of
        None \<Rightarrow> Some 0
      | Some edge \<Rightarrow>
          (case find (\<lambda>n. n_id n = e_to edge) nodes of
             None \<Rightarrow> Some 0
           | Some targetNode \<Rightarrow>
               addFlows (getFlow fuel nodes edges)
                 (if n_type targetNode = APPLIANCE then 0 + n_btu targetNode else 0)
                 (filter (\<lambda>e. e_from e = n_id targetNode) edges)))"

section \<open>Network validator: validateSystem\<close>

text \<open>
  \<^verbatim>\<open>edges.forEach(edge => { ...; results[edge.id] = verdict })\<close>, with the verdict of
  one edge as a parameter: \<open>todo\<close> is what is left of the array, \<open>results\<close> the object
  built so far.
\<close>

primrec validateEdges ::
  "(AppEdge \<Rightarrow> real \<Rightarrow> Verdict) \<Rightarrow> nat \<Rightarrow> AppNode list \<Rightarrow> AppEdge list \<Rightarrow>
   AppEdge list \<Rightarrow> (string \<rightharpoonup> Verdict) \<Rightarrow> (string \<rightharpoonup> Verdict) option" where
  "validateEdges verdict fuel nodes edges [] results = Some results"
| "validateEdges verdict fuel nodes edges (edge # todo) results =
     (case getFlow fuel nodes edges (e_id edge) of
        None \<Rightarrow> None
      | Some flow \<Rightarrow>
          validateEdges verdict fuel nodes edges todo
            (results(e_id edge \<mapsto> verdict edge flow)))"

text \<open>
  The messages of the App component of part_002. \<open>toLocaleString\<close> formats a number in the
  host's locale; it is a parameter of the model.
\<close>

definition capacityMessage :: "(jsnum \<Rightarrow> string) \<Rightarrow> real \<Rightarrow> jsnum \<Rightarrow> string" where
  "capacityMessage toLocaleString flow capacity =
     ''Capacity Exceeded: '' @ toLocaleString (Fin flow) @ '' > '' @ toLocaleString capacity
       @ '' BTU. Try shorter length or larger pipe.''"

definition sizingMessage :: "AppEdge \<Rightarrow> AppEdge \<Rightarrow> string" where
  "sizingMessage edge upstreamEdge =
     ''Sizing violation: Branch pipe ('' @ sizeName (e_size edge)
       @ '') cannot be larger than feeder ('' @ sizeName (e_size upstreamEdge) @ '').''"

text \<open>
  The body of the loop in the App component of part_002 (lines 63-86). The pair is
  \<open>(isValid, error)\<close> after the capacity check; the sizing check then looks at the first
  edge of the array whose \<open>to\<close> is this edge's \<open>from\<close>.
\<close>

definition edgeVerdict_part002 ::
  "(jsnum \<Rightarrow> string) \<Rightarrow> real \<Rightarrow> AppEdge list \<Rightarrow> AppEdge \<Rightarrow> real \<Rightarrow> Verdict" where
  "edgeVerdict_part002 toLocaleString pressureDrop edges edge flow =
     (let capacity = calculateCapacity_part002 pressureDrop (e_size edge) (e_length edge);
          checked = (if js_gt (Fin flow) capacity
                     then (False, Some (capacityMessage toLocaleString flow capacity))
                     else (True, None));
          sized = (case find (\<lambda>e. e_to e = e_from edge) edges of
                     None \<Rightarrow> checked
                   | Some upstreamEdge \<Rightarrow>
                       (let upIndex = indexOf PIPE_ORDER (e_size upstreamEdge);
                            currentIndex = indexOf PIPE_ORDER (e_size edge)
                        in if currentIndex > upIndex
                           then (False,
                                 Some (case snd checked of
                                         None \<Rightarrow> sizingMessage edge upstreamEdge
                                       | Some err \<Rightarrow>
                                           if err = [] then sizingMessage edge upstreamEdge
                                           else err @ '' '' @ sizingMessage edge upstreamEdge))
                           else checked))
      in \<lparr>v_isValid = fst sized, v_flow = flow, v_capacity = capacity, v_error = snd sized\<rparr>)"

definition validateSystem_part002 ::
  "(jsnum \<Rightarrow> string) \<Rightarrow> nat \<Rightarrow> AppState \<Rightarrow> AppState option" where
  "validateSystem_part002 toLocaleString fuel s =
     (case validateEdges (edgeVerdict_part002 toLocaleString (s_pressureDrop s) (s_edges s))
             fuel (s_nodes s) (s_edges s) (s_edges s) Map.empty of
        None \<Rightarrow> None
      | Some results \<Rightarrow> Some (s\<lparr>s_validation := results\<rparr>))"

text \<open>
  src/App.tsx, lines 89-108: \<^verbatim>\<open>let isValid = flow <= capacity;\<close> and nothing else.
\<close>

definition edgeVerdict_App :: "real \<Rightarrow> AppEdge \<Rightarrow> real \<Rightarrow> Verdict" where
  "edgeVerdict_App pressureDrop edge flow =
     (let capacity = calculateCapacity_App pressureDrop (e_size edge) (e_length edge);
          isValid = js_le (Fin flow) capacity
      in \<lparr>v_isValid = isValid, v_flow = flow, v_capacity = capacity, v_error = None\<rparr>)"

definition validateSystem_App :: "nat \<Rightarrow> AppState \<Rightarrow> AppState option" where
  "validateSystem_App fuel s =
     (case validateEdges (edgeVerdict_App (s_pressureDrop s))
             fuel (s_nodes s) (s_edges s) (s_edges s) Map.empty of
        None \<Rightarrow> None
      | Some results \<Rightarrow> Some (s\<lparr>s_validation := results\<rparr>))"

section \<open>Graph mutation: adding an edge\<close>

text \<open>
  handleAddEdge of the App component of part_002 (lines 142-173). The id of the new
  edge is drawn with Math.random; it is the parameter \<open>newId\<close>. A rejected edit leaves
  the state as it is (the alert is not modelled).
\<close>

definition handleAddEdge :: "string \<Rightarrow> string \<Rightarrow> string \<Rightarrow> AppState \<Rightarrow> AppState" where
  "handleAddEdge newId fromId toId s =
     (if fromId = toId then s
      else (case find (\<lambda>n. n_id n = fromId) (s_nodes s) of
              None \<Rightarrow> s
            | Some fromNode \<Rightarrow>
                if find (\<lambda>e. e_to e = toId) (s_edges s) \<noteq> None then s
                else if n_type fromNode = JUNCTION
                        \<and> 2 \<le> length (filter (\<lambda>e. e_from e = fromId) (s_edges s)) then s
                else if n_type fromNode = APPLIANCE then s
                else s\<lparr>s_edges := s_edges s @
                          [\<lparr>e_id = newId, e_from = fromId, e_to = toId,
                            e_size = s_selectedPipeSize s, e_length = 10\<rparr>],
                       s_selectedId := Some newId\<rparr>))"

text \<open>
  The onAddEdge callback of src/App.tsx (line 332): the edge is appended with no check.
\<close>

definition onAddEdge_App :: "string \<Rightarrow> string \<Rightarrow> string \<Rightarrow> AppState \<Rightarrow> AppState" where
  "onAddEdge_App newId f t s =
     s\<lparr>s_edges := s_edges s @
          [\<lparr>e_id = newId, e_from = f, e_to = t,
            e_size = s_selectedPipeSize s, e_length = 10\<rparr>]\<rparr>"

section \<open>Derived notions\<close>

text \<open>
  The formula of the capacity model over the reals: what calculateCapacity computes when
  no special value arises.
\<close>

definition idealCapacity :: "real \<Rightarrow> PipeSize \<Rightarrow> real \<Rightarrow> real" where
  "idealCapacity pressureDrop size' length' =
     (case PIPE_SPECS size' of
        None \<Rightarrow> 0
      | Some spec \<Rightarrow>
          of_int \<lfloor>((pressureDrop / length') / pd_coeff spec) powr (1 / pd_exp spec)\<rfloor> * 1000)"


text \<open>
  \<open>acyclicBy h edges\<close>: the rank \<open>h\<close> of a node id falls strictly along every edge.
  A finite edge list has such a rank exactly when it has no directed cycle.
\<close>

definition acyclicBy :: "(string \<Rightarrow> nat) \<Rightarrow> AppEdge list \<Rightarrow> bool" where
  "acyclicBy h edges = list_all (\<lambda>e. h (e_to e) < h (e_from e)) edges"

text \<open>
  A set \<open>S\<close> of node ids is closed under the edges when every edge that leaves \<open>S\<close>
  ends in \<open>S\<close>; a closed set that holds a node holds the whole subtree below it.
  \<open>noDemandIn S nodes\<close>: every appliance with its id in \<open>S\<close> has btu 0.
\<close>

definition closedUnder :: "string set \<Rightarrow> AppEdge list \<Rightarrow> bool" where
  "closedUnder S edges = list_all (\<lambda>e. e_from e \<notin> S \<or> e_to e \<in> S) edges"

definition noDemandIn :: "string set \<Rightarrow> AppNode list \<Rightarrow> bool" where
  "noDemandIn S nodes = list_all (\<lambda>n. n_id n \<notin> S \<or> n_type n \<noteq> APPLIANCE \<or> n_btu n = 0) nodes"

text \<open>
  The structural invariants the validator assumes: no edge is a self-loop, no node has
  two inbound edges, a JUNCTION has at most 2 outbound edges and an APPLIANCE has none.
\<close>

definition structuralInvariants :: "AppNode list \<Rightarrow> AppEdge list \<Rightarrow> bool" where
  "structuralInvariants nodes edges =
     (list_all (\<lambda>e. e_from e \<noteq> e_to e) edges
      \<and> distinct (map e_to edges)
      \<and> list_all (\<lambda>n. case n_type n of
                        JUNCTION \<Rightarrow> length (filter (\<lambda>e. e_from e = n_id n) edges) \<le> 2
                      | APPLIANCE \<Rightarrow> filter (\<lambda>e. e_from e = n_id n) edges = []
                      | METER \<Rightarrow> True
                      | MANIFOLD \<Rightarrow> True) nodes)"

text \<open>
  The states handleAddEdge reaches from a state with no edges.
\<close>

inductive reachableByAddEdge :: "AppState \<Rightarrow> AppState \<Rightarrow> bool" for s0 :: AppState where
  start: "s_edges s0 = [] \<Longrightarrow> reachableByAddEdge s0 s0"
| add: "reachableByAddEdge s0 s \<Longrightarrow> reachableByAddEdge s0 (handleAddEdge newId fromId toId s)"

section \<open>Example graphs\<close>

text \<open>
  The network of the specification's example (meter, junction, appliance of 40000 BTU,
  joined by 10 ft pipes of size 1/2), with a second branch from the junction to a
  junction that feeds nothing.
\<close>

definition ex_nodes :: "AppNode list" where
  "ex_nodes = [\<lparr>n_id = ''m'', n_type = METER, n_x = 0, n_y = 0, n_name = ''Gas Meter'', n_btu = 0\<rparr>,
               \<lparr>n_id = ''j'', n_type = JUNCTION, n_x = 0, n_y = 0, n_name = ''T-Junction'', n_btu = 0\<rparr>,
               \<lparr>n_id = ''a'', n_type = APPLIANCE, n_x = 0, n_y = 0, n_name = ''Water Heater'', n_btu = 40000\<rparr>,
               \<lparr>n_id = ''k'', n_type = JUNCTION, n_x = 0, n_y = 0, n_name = ''T-Junction'', n_btu = 0\<rparr>]"

definition ex_edges :: "AppEdge list" where
  "ex_edges = [\<lparr>e_id = ''e1'', e_from = ''m'', e_to = ''j'', e_size = HALF, e_length = 10\<rparr>,
               \<lparr>e_id = ''e2'', e_from = ''j'', e_to = ''a'', e_size = HALF, e_length = 10\<rparr>,
               \<lparr>e_id = ''e3'', e_from = ''j'', e_to = ''k'', e_size = HALF, e_length = 10\<rparr>]"

definition ex_rank :: "string \<Rightarrow> nat" where
  "ex_rank i = (if i = ''m'' then 2 else if i = ''j'' then 1 else 0)"

definition ex_state :: AppState where
  "ex_state = \<lparr>s_nodes = ex_nodes, s_edges = ex_edges, s_pressureDrop = 0.5,
               s_selectedPipeSize = HALF, s_selectedId = None, s_validation = Map.empty\<rparr>"

text \<open>
  The nodes of the example with no edge yet.
\<close>

definition empty_state :: AppState where
  "empty_state = \<lparr>s_nodes = ex_nodes, s_edges = [], s_pressureDrop = 0.5,
                  s_selectedPipeSize = HALF, s_selectedId = None, s_validation = Map.empty\<rparr>"

text \<open>
  The same graph with another selection and a verdict map left from an earlier pass.
\<close>

definition ex_state_stale :: AppState where
  "ex_state_stale = ex_state\<lparr>s_selectedId := Some ''e1'',
     s_validation := [''gone'' \<mapsto> \<lparr>v_isValid = False, v_flow = 1, v_capacity = NaN, v_error = None\<rparr>]\<rparr>"


text \<open>
  Two junctions that feed each other: every node has one inbound edge.
\<close>

definition cyc_nodes :: "AppNode list" where
  "cyc_nodes = [\<lparr>n_id = ''a'', n_type = JUNCTION, n_x = 0, n_y = 0, n_name = ''A'', n_btu = 0\<rparr>,
                \<lparr>n_id = ''b'', n_type = JUNCTION, n_x = 0, n_y = 0, n_name = ''B'', n_btu = 0\<rparr>]"

definition cyc_edges :: "AppEdge list" where
  "cyc_edges = [\<lparr>e_id = ''e1'', e_from = ''a'', e_to = ''b'', e_size = HALF, e_length = 10\<rparr>,
                \<lparr>e_id = ''e2'', e_from = ''b'', e_to = ''a'', e_size = HALF, e_length = 10\<rparr>]"





section \<open>Lists and lookups\<close>

lemma find_Some_mem: "find P xs = Some x \<Longrightarrow> x \<in> set xs \<and> P x"
  by (induction xs) (auto split: if_splits)

lemma find_append_case:
  "find P (xs @ ys) = (case find P xs of None \<Rightarrow> find P ys | Some x \<Rightarrow> Some x)"
  by (induction xs) auto

lemma find_distinct_id:
  "distinct (map e_id edges) \<Longrightarrow> E \<in> set edges \<Longrightarrow> find (\<lambda>e. e_id e = e_id E) edges = Some E"
proof (induction edges)
  case Nil
  then show ?case by simp
next
  case (Cons a edges)
  then show ?case by (auto simp: image_iff)
qed

lemma find_rev_distinct_id:
  "distinct (map e_id edges) \<Longrightarrow> E \<in> set edges \<Longrightarrow> find (\<lambda>e. e_id e = e_id E) (rev edges) = Some E"
  using find_distinct_id[of "rev edges" E] by (simp add: rev_map[symmetric])

lemma find_distinct_node:
  "distinct (map n_id nodes) \<Longrightarrow> n \<in> set nodes \<Longrightarrow> find (\<lambda>m. n_id m = n_id n) nodes = Some n"
  by (induction nodes) (auto simp: image_iff)


lemma list_all2_zero_sum:
  "list_all2 (\<lambda>out w. g out = Some w) outs vs \<Longrightarrow>
   \<forall>out\<in>set outs. \<forall>w. g out = Some w \<longrightarrow> w = 0 \<Longrightarrow> sum_list vs = (0::real)"
  by (induction rule: list_all2_induct) auto

section \<open>The size table and the capacity formula\<close>

lemma PIPE_SPECS_Some:
  "\<exists>spec. PIPE_SPECS size' = Some spec \<and> 0 < pd_coeff spec \<and> 1 < pd_exp spec"
  by (cases size') (simp_all add: PIPE_SPECS_def)

lemma indexOf_PIPE_ORDER:
  "indexOf PIPE_ORDER THREE_EIGHTHS = 0" "indexOf PIPE_ORDER HALF = 1"
  "indexOf PIPE_ORDER THREE_QUARTERS = 2" "indexOf PIPE_ORDER ONE = 3"
  "indexOf PIPE_ORDER ONE_AND_QUARTER = 4"
  by (simp_all add: PIPE_ORDER_def)

lemma js_pow_nonneg: "0 \<le> x \<Longrightarrow> 0 < p \<Longrightarrow> js_pow (Fin x) (Fin p) = Fin (x powr p)"
  by simp


lemma cfh_formula:
  assumes "0 < length'" "0 \<le> pressureDrop" "0 < c" "1 < e"
  shows "js_mul (js_floor (js_pow (js_div (js_div (Fin pressureDrop) (Fin length')) (Fin c))
                                  (js_div (Fin 1) (Fin e)))) (Fin 1000)
         = Fin (of_int \<lfloor>((pressureDrop / length') / c) powr (1 / e)\<rfloor> * 1000)"
proof -
  have d1: "js_div (Fin pressureDrop) (Fin length') = Fin (pressureDrop / length')"
    using assms by simp
  have d2: "js_div (Fin (pressureDrop / length')) (Fin c) = Fin (pressureDrop / length' / c)"
    using assms by simp
  have d3: "js_div (Fin 1) (Fin e) = Fin (1 / e)"
    using assms by simp
  have "0 \<le> pressureDrop / length' / c" "0 < 1 / e" using assms by simp_all
  then have p: "js_pow (Fin (pressureDrop / length' / c)) (Fin (1 / e))
                = Fin ((pressureDrop / length' / c) powr (1 / e))"
    by (rule js_pow_nonneg)
  show ?thesis unfolding d1 d2 d3 p by simp
qed

lemma capacity_formula:
  assumes "0 < length'" "0 \<le> pressureDrop"
  shows "calculateCapacity_App pressureDrop size' length' = Fin (idealCapacity pressureDrop size' length')"
    and "calculateCapacity_part002 pressureDrop size' length' = Fin (idealCapacity pressureDrop size' length')"
proof -
  obtain spec where s: "PIPE_SPECS size' = Some spec" "0 < pd_coeff spec" "1 < pd_exp spec"
    using PIPE_SPECS_Some by blast
  note f = cfh_formula[OF assms s(2,3)]
  show "calculateCapacity_App pressureDrop size' length' = Fin (idealCapacity pressureDrop size' length')"
    using assms(1) by (simp only: calculateCapacity_App_def idealCapacity_def s(1) option.case Let_def f) simp
  show "calculateCapacity_part002 pressureDrop size' length' = Fin (idealCapacity pressureDrop size' length')"
    by (simp only: calculateCapacity_part002_def idealCapacity_def s(1) option.case Let_def f)
qed



section \<open>Bounds on real powers\<close>

lemma powr_root_le:
  fixes a k :: real
  assumes "0 \<le> a" "a \<le> k ^ M" "0 < k" "0 < N"
  shows "a powr (1 / real N) \<le> k powr (real M / real N)"
proof -
  have "a powr (1 / real N) \<le> (k ^ M) powr (1 / real N)"
    using assms by (intro powr_mono2) simp_all
  also have "(k ^ M) powr (1 / real N) = (k powr real M) powr (1 / real N)"
    using assms(3) by (simp add: powr_realpow)
  also have "\<dots> = k powr (real M / real N)"
    by (simp add: powr_powr)
  finally show ?thesis .
qed

lemma powr_half_le:
  fixes z r r' :: real
  assumes "z \<le> r" "0 \<le> z" "0 \<le> r'" "r \<le> r'\<^sup>2"
  shows "z powr (1 / 2) \<le> r'"
proof -
  have "z powr (1 / 2) = sqrt z" using assms(2) by (simp add: powr_half_sqrt)
  also have "\<dots> \<le> r'" using assms by (intro real_le_lsqrt) simp_all
  finally show ?thesis .
qed

lemma powr_half_ge:
  fixes z r r' :: real
  assumes "r \<le> z" "0 \<le> r'" "r'\<^sup>2 \<le> r"
  shows "r' \<le> z powr (1 / 2)"
proof -
  have z: "0 \<le> z" using assms by (smt (verit) zero_le_power2)
  have "r' \<le> sqrt z" using assms by (intro real_le_rsqrt) simp
  also have "\<dots> = z powr (1 / 2)" using z by (simp add: powr_half_sqrt)
  finally show ?thesis .
qed

lemma powr_halve_le:
  fixes y a r r' :: real
  assumes "y powr a \<le> r" "0 \<le> r'" "r \<le> r'\<^sup>2"
  shows "y powr (a / 2) \<le> r'"
proof -
  have "y powr (a / 2) = (y powr a) powr (1 / 2)" by (simp add: powr_powr)
  also have "\<dots> \<le> r'" using assms by (intro powr_half_le[of _ r]) simp_all
  finally show ?thesis .
qed

lemma powr_halve_ge:
  fixes y a r r' :: real
  assumes "r \<le> y powr a" "0 \<le> r'" "r'\<^sup>2 \<le> r"
  shows "r' \<le> y powr (a / 2)"
proof -
  have "r' \<le> (y powr a) powr (1 / 2)" using assms by (intro powr_half_ge[of r]) simp_all
  also have "\<dots> = y powr (a / 2)" by (simp add: powr_powr)
  finally show ?thesis .
qed

lemma floor_powr_small:
  fixes a p :: real
  assumes "0 \<le> a" "a < 1" "0 < p"
  shows "\<lfloor>a powr p\<rfloor> = 0"
proof -
  have "a powr p < 1 powr p" using powr_less_mono2[of p a 1] assms by simp
  then have "a powr p < 1" by simp
  moreover have "0 \<le> a powr p" by simp
  ultimately show ?thesis by (simp add: floor_eq_iff)
qed

lemma floor_step_up:
  fixes x ci cj pi pj :: real
  assumes "0 \<le> x" "0 < cj" "cj \<le> ci" "0 < pi" "pi \<le> pj"
  shows "\<lfloor>(x / ci) powr pi\<rfloor> \<le> \<lfloor>(x / cj) powr pj\<rfloor>"
proof (cases "x / cj < 1")
  case True
  have "x / ci \<le> x / cj" using assms by (simp add: frac_le)
  then have "x / ci < 1" using True by simp
  moreover have "0 \<le> x / ci" using assms by simp
  ultimately have "\<lfloor>(x / ci) powr pi\<rfloor> = 0" using assms(4) by (intro floor_powr_small)
  then show ?thesis by simp
next
  case False
  then have b: "1 \<le> x / cj" by simp
  have le: "x / ci \<le> x / cj" using assms by (simp add: frac_le)
  have "(x / ci) powr pi \<le> (x / cj) powr pi"
    using assms le by (intro powr_mono2) simp_all
  also have "\<dots> \<le> (x / cj) powr pj"
    using b assms(5) by (intro powr_mono)
  finally show ?thesis by (rule floor_mono)
qed

lemma floor_step_down:
  fixes x ci cj pi pj :: real
  assumes x: "0 \<le> x" and c: "0 < cj" "cj \<le> ci"
    and p: "0 < pi" "0 < pj" "pi \<le> pj + 1 / real N" "real M / real N \<le> pj" "0 < N"
    and bound: "x / ci \<le> (ci / cj) ^ M"
  shows "\<lfloor>(x / ci) powr pi\<rfloor> \<le> \<lfloor>(x / cj) powr pj\<rfloor>"
proof (cases "x / ci < 1")
  case True
  moreover have "0 \<le> x / ci" using x c by simp
  ultimately have "\<lfloor>(x / ci) powr pi\<rfloor> = 0" using p(1) by (intro floor_powr_small)
  then show ?thesis by simp
next
  case False
  define a where "a = x / ci"
  define k where "k = ci / cj"
  have a: "1 \<le> a" using False by (simp add: a_def)
  have k: "1 \<le> k" using c by (simp add: k_def)
  have ci: "0 < ci" using c by simp
  have ak: "x / cj = a * k" using c ci by (simp add: a_def k_def)
  have "a powr pi \<le> a powr (pj + 1 / real N)"
    using a p(3) by (intro powr_mono)
  also have "\<dots> = a powr pj * a powr (1 / real N)"
    by (simp add: powr_add)
  also have "\<dots> \<le> a powr pj * k powr (real M / real N)"
  proof (rule mult_left_mono)
    show "a powr (1 / real N) \<le> k powr (real M / real N)"
      using a k bound p(5) by (intro powr_root_le) (simp_all add: a_def k_def)
    show "0 \<le> a powr pj" by simp
  qed
  also have "\<dots> \<le> a powr pj * k powr pj"
  proof (rule mult_left_mono)
    show "k powr (real M / real N) \<le> k powr pj" using k p(4) by (intro powr_mono)
    show "0 \<le> a powr pj" by simp
  qed
  also have "\<dots> = (a * k) powr pj"
    using a k by (simp add: powr_mult)
  finally have "(x / ci) powr pi \<le> (x / cj) powr pj"
    by (simp add: a_def[symmetric] ak)
  then show ?thesis by (rule floor_mono)
qed

section \<open>The capacity formula on the size table\<close>

lemma idealCapacity_simps:
  "idealCapacity d THREE_EIGHTHS l = of_int \<lfloor>((d / l) / 0.00002158927) powr (1 / 2.02558185)\<rfloor> * 1000"
  "idealCapacity d HALF l = of_int \<lfloor>((d / l) / 0.00000410606) powr (1 / 2.1590935)\<rfloor> * 1000"
  "idealCapacity d THREE_QUARTERS l = of_int \<lfloor>((d / l) / 0.00000123682) powr (1 / 2.00156167)\<rfloor> * 1000"
  "idealCapacity d ONE l = of_int \<lfloor>((d / l) / 0.0000010746) powr (1 / 1.77654817)\<rfloor> * 1000"
  "idealCapacity d ONE_AND_QUARTER l = of_int \<lfloor>((d / l) / 0.00000011678553403503) powr (1 / 1.992081557687)\<rfloor> * 1000"
  by (simp_all only: idealCapacity_def PIPE_SPECS_def PipeSize.case option.case PipeData.simps)

lemma idealCapacity_antimono_length:
  assumes "0 \<le> d" "0 < l1" "l1 \<le> l2"
  shows "idealCapacity d size' l2 \<le> idealCapacity d size' l1"
proof -
  obtain spec where s: "PIPE_SPECS size' = Some spec" "0 < pd_coeff spec" "1 < pd_exp spec"
    using PIPE_SPECS_Some by blast
  have le: "d / l2 \<le> d / l1" using assms by (simp add: frac_le)
  have "d / l2 / pd_coeff spec \<le> d / l1 / pd_coeff spec"
    by (rule divide_right_mono[OF le]) (use s(2) in simp)
  moreover have "0 \<le> d / l2 / pd_coeff spec" using assms s(2) by simp
  ultimately have "(d / l2 / pd_coeff spec) powr (1 / pd_exp spec)
                   \<le> (d / l1 / pd_coeff spec) powr (1 / pd_exp spec)"
    using s(3) by (intro powr_mono2) simp_all
  then have "\<lfloor>(d / l2 / pd_coeff spec) powr (1 / pd_exp spec)\<rfloor>
             \<le> \<lfloor>(d / l1 / pd_coeff spec) powr (1 / pd_exp spec)\<rfloor>"
    by (rule floor_mono)
  then show ?thesis by (simp add: idealCapacity_def s(1))
qed

lemma step_3_8_to_1_2:
  fixes x :: real
  assumes "0 \<le> x" "x \<le> 50"
  shows "\<lfloor>(x / 0.00002158927) powr (1 / 2.02558185)\<rfloor> \<le> \<lfloor>(x / 0.00000410606) powr (1 / 2.1590935)\<rfloor>"
proof (rule floor_step_down[where N = 32 and M = 14])
  have "x / 0.00002158927 \<le> 50 / 0.00002158927" using assms by simp
  also have "\<dots> \<le> (0.00002158927 / 0.00000410606) ^ 14" by (simp add: power_divide)
  finally show "x / 0.00002158927 \<le> (0.00002158927 / 0.00000410606) ^ 14" .
qed (use assms in simp_all)

lemma step_1_2_to_3_4:
  fixes x :: real
  assumes "0 \<le> x"
  shows "\<lfloor>(x / 0.00000410606) powr (1 / 2.1590935)\<rfloor> \<le> \<lfloor>(x / 0.00000123682) powr (1 / 2.00156167)\<rfloor>"
  by (rule floor_step_up) (use assms in simp_all)

lemma step_3_4_to_1:
  fixes x :: real
  assumes "0 \<le> x"
  shows "\<lfloor>(x / 0.00000123682) powr (1 / 2.00156167)\<rfloor> \<le> \<lfloor>(x / 0.0000010746) powr (1 / 1.77654817)\<rfloor>"
  by (rule floor_step_up) (use assms in simp_all)

lemma step_1_to_1_1_4:
  fixes x :: real
  assumes "0 \<le> x" "x \<le> 50"
  shows "\<lfloor>(x / 0.0000010746) powr (1 / 1.77654817)\<rfloor> \<le> \<lfloor>(x / 0.00000011678553403503) powr (1 / 1.992081557687)\<rfloor>"
proof (rule floor_step_down[where N = 16 and M = 8])
  have "x / 0.0000010746 \<le> 50 / 0.0000010746" using assms by simp
  also have "\<dots> \<le> (0.0000010746 / 0.00000011678553403503) ^ 8" by (simp add: power_divide)
  finally show "x / 0.0000010746 \<le> (0.0000010746 / 0.00000011678553403503) ^ 8" .
qed (use assms in simp_all)

lemma idealCapacity_mono_size:
  assumes "0 < l" "0 \<le> d" "d \<le> 50 * l"
    and "indexOf PIPE_ORDER s1 \<le> indexOf PIPE_ORDER s2"
  shows "idealCapacity d s1 l \<le> idealCapacity d s2 l"
proof -
  have x: "0 \<le> d / l" "d / l \<le> 50" using assms by (simp_all add: pos_divide_le_eq)
  have a1: "idealCapacity d THREE_EIGHTHS l \<le> idealCapacity d HALF l"
    unfolding idealCapacity_simps using step_3_8_to_1_2[OF x] by simp
  have a2: "idealCapacity d HALF l \<le> idealCapacity d THREE_QUARTERS l"
    unfolding idealCapacity_simps using step_1_2_to_3_4[OF x(1)] by simp
  have a3: "idealCapacity d THREE_QUARTERS l \<le> idealCapacity d ONE l"
    unfolding idealCapacity_simps using step_3_4_to_1[OF x(1)] by simp
  have a4: "idealCapacity d ONE l \<le> idealCapacity d ONE_AND_QUARTER l"
    unfolding idealCapacity_simps using step_1_to_1_1_4[OF x] by simp
  show ?thesis
    using assms(4) a1 a2 a3 a4
    by (cases s1; cases s2) (simp_all add: indexOf_PIPE_ORDER)
qed

lemma cfh_1_at_1000:
  "110000 \<le> ((1000::real) / 1 / 0.0000010746) powr (1 / 1.77654817)"
proof -
  define y :: real where "y = 1000 / 1 / 0.0000010746"
  have y: "1 \<le> y" "0 \<le> y" by (simp_all add: y_def)
  have z1: "30500 \<le> y powr (1 / 2)" by (rule powr_half_ge[of y y]) (simp_all add: y_def power2_eq_square)
  have z2: "174.6 \<le> (y powr (1 / 2)) powr (1 / 2)" by (rule powr_half_ge[OF z1]) (simp_all add: power2_eq_square)
  have z3: "13.21 \<le> ((y powr (1 / 2)) powr (1 / 2)) powr (1 / 2)" by (rule powr_half_ge[OF z2]) (simp_all add: power2_eq_square)
  have z4: "3.63 \<le> (((y powr (1 / 2)) powr (1 / 2)) powr (1 / 2)) powr (1 / 2)"
    by (rule powr_half_ge[OF z3]) (simp_all add: power2_eq_square)
  have r4: "3.63 \<le> y powr (1 / 16)" using z4 by (simp add: powr_powr)
  have "(110000::real) \<le> 30500 * 3.63" by simp
  also have "\<dots> \<le> y powr (1 / 2) * y powr (1 / 16)"
    using z1 r4 by (intro mult_mono) simp_all
  also have "\<dots> = y powr (1 / 2 + 1 / 16)" by (rule powr_add[symmetric])
  also have "\<dots> \<le> y powr (1 / 1.77654817)"
    using y(1) by (intro powr_mono) simp_all
  finally show ?thesis by (simp add: y_def)
qed

lemma cfh_1_1_4_at_1000:
  "((1000::real) / 1 / 0.00000011678553403503) powr (1 / 1.992081557687) < 110000"
proof -
  define y :: real where "y = 1000 / 1 / 0.00000011678553403503"
  have y: "1 \<le> y" "0 \<le> y" by (simp_all add: y_def)
  have z1: "y powr (1 / 2) \<le> 92600" by (rule powr_half_le[of y y]) (simp_all add: y_def power2_eq_square)
  have z2: "(y powr (1 / 2)) powr (1 / 2) \<le> 305" by (rule powr_half_le[OF z1]) (simp_all add: power2_eq_square)
  have z3: "((y powr (1 / 2)) powr (1 / 2)) powr (1 / 2) \<le> 17.5" by (rule powr_half_le[OF z2]) (simp_all add: power2_eq_square)
  have z4: "(((y powr (1 / 2)) powr (1 / 2)) powr (1 / 2)) powr (1 / 2) \<le> 4.19"
    by (rule powr_half_le[OF z3]) (simp_all add: power2_eq_square)
  have z5: "((((y powr (1 / 2)) powr (1 / 2)) powr (1 / 2)) powr (1 / 2)) powr (1 / 2) \<le> 2.05"
    by (rule powr_half_le[OF z4]) (simp_all add: power2_eq_square)
  have z6: "(((((y powr (1 / 2)) powr (1 / 2)) powr (1 / 2)) powr (1 / 2)) powr (1 / 2)) powr (1 / 2) \<le> 1.44"
    by (rule powr_half_le[OF z5]) (simp_all add: power2_eq_square)
  have z7: "((((((y powr (1 / 2)) powr (1 / 2)) powr (1 / 2)) powr (1 / 2)) powr (1 / 2)) powr (1 / 2)) powr (1 / 2) \<le> 1.2"
    by (rule powr_half_le[OF z6]) (simp_all add: power2_eq_square)
  have z8: "(((((((y powr (1 / 2)) powr (1 / 2)) powr (1 / 2)) powr (1 / 2)) powr (1 / 2)) powr (1 / 2)) powr (1 / 2)) powr (1 / 2) \<le> 1.1"
    by (rule powr_half_le[OF z7]) (simp_all add: power2_eq_square)
  have r8: "y powr (1 / 256) \<le> 1.1" using z8 by (simp add: powr_powr)
  have "y powr (1 / 1.992081557687) \<le> y powr (1 / 2 + 1 / 256)"
    using y(1) by (intro powr_mono) simp_all
  also have "\<dots> = y powr (1 / 2) * y powr (1 / 256)" by (rule powr_add)
  also have "\<dots> \<le> 92600 * 1.1"
    using z1 r8 by (intro mult_mono) simp_all
  also have "\<dots> < (110000::real)" by simp
  finally show ?thesis by (simp add: y_def)
qed

lemma capacity_negative_drop:
  "calculateCapacity_App (- 0.5) HALF 10 = NaN" "calculateCapacity_App (- 0.5) HALF 20 = NaN"
  "calculateCapacity_part002 (- 0.5) HALF 10 = NaN"
proof -
  have f: "\<lfloor>10000000 / 21590935 :: real\<rfloor> = 0" by simp
  show "calculateCapacity_App (- 0.5) HALF 10 = NaN" "calculateCapacity_App (- 0.5) HALF 20 = NaN"
    "calculateCapacity_part002 (- 0.5) HALF 10 = NaN"
    by (simp_all add: calculateCapacity_part002_def calculateCapacity_App_def PIPE_SPECS_def Let_def f)
qed

lemma calculateCapacity_App_nonpositive_length:
  "length' \<le> 0 \<Longrightarrow> calculateCapacity_App pressureDrop size' length' = Fin 0"
  by (simp add: calculateCapacity_App_def split: option.splits)

text \<open>
  The specification's sample value, in exact arithmetic: for size 1/2, length 10 and
  pressure drop 0.5 the power is between 78 and 79 (about 78.03), so the capacity is
  78000. The bounds come from repeated square roots of the base.
\<close>

lemma cfh_half_inch_10ft_bounds:
  "78.01 \<le> ((0.5::real) / 10 / 0.00000410606) powr (1 / 2.1590935)
   \<and> ((0.5::real) / 10 / 0.00000410606) powr (1 / 2.1590935) < 78.56"
proof -
  define y :: real where "y = 0.5 / 10 / 0.00000410606"
  have y: "1 \<le> y" "0 < y" by (simp_all add: y_def)
  have y1: "y powr 1 = y" using y(2) by simp
  have u1: "y powr (1 / 2) \<le> 110.350005"
    using powr_halve_le[of y 1 y "110.350005"] by (simp add: power2_eq_square y1 y_def)
  have u2: "y powr (1 / 4) \<le> 10.5047611"
    using powr_halve_le[OF u1, of "10.5047611"] by (simp add: power2_eq_square)
  have u3: "y powr (1 / 8) \<le> 3.24110492"
    using powr_halve_le[OF u2, of "3.24110492"] by (simp add: power2_eq_square)
  have u4: "y powr (1 / 16) \<le> 1.80030690"
    using powr_halve_le[OF u3, of "1.80030690"] by (simp add: power2_eq_square)
  have u5: "y powr (1 / 32) \<le> 1.34175516"
    using powr_halve_le[OF u4, of "1.34175516"] by (simp add: power2_eq_square)
  have u6: "y powr (1 / 64) \<le> 1.15834156"
    using powr_halve_le[OF u5, of "1.15834156"] by (simp add: power2_eq_square)
  have u7: "y powr (1 / 128) \<le> 1.07626278"
    using powr_halve_le[OF u6, of "1.07626278"] by (simp add: power2_eq_square)
  have u8: "y powr (1 / 256) \<le> 1.03743086"
    using powr_halve_le[OF u7, of "1.03743086"] by (simp add: power2_eq_square)
  have u9: "y powr (1 / 512) \<le> 1.01854350"
    using powr_halve_le[OF u8, of "1.01854350"] by (simp add: power2_eq_square)
  have u10: "y powr (1 / 1024) \<le> 1.00922917"
    using powr_halve_le[OF u9, of "1.00922917"] by (simp add: power2_eq_square)
  have u11: "y powr (1 / 2048) \<le> 1.00460399"
    using powr_halve_le[OF u10, of "1.00460399"] by (simp add: power2_eq_square)
  have u12: "y powr (1 / 4096) \<le> 1.00229936"
    using powr_halve_le[OF u11, of "1.00229936"] by (simp add: power2_eq_square)
  have l1: "110.350004 \<le> y powr (1 / 2)"
    using powr_halve_ge[of y y 1 "110.350004"] by (simp add: power2_eq_square y1 y_def)
  have l2: "10.5047610 \<le> y powr (1 / 4)"
    using powr_halve_ge[OF l1, of "10.5047610"] by (simp add: power2_eq_square)
  have l3: "3.24110490 \<le> y powr (1 / 8)"
    using powr_halve_ge[OF l2, of "3.24110490"] by (simp add: power2_eq_square)
  have l4: "1.80030689 \<le> y powr (1 / 16)"
    using powr_halve_ge[OF l3, of "1.80030689"] by (simp add: power2_eq_square)
  have l5: "1.34175515 \<le> y powr (1 / 32)"
    using powr_halve_ge[OF l4, of "1.34175515"] by (simp add: power2_eq_square)
  have l6: "1.15834155 \<le> y powr (1 / 64)"
    using powr_halve_ge[OF l5, of "1.15834155"] by (simp add: power2_eq_square)
  have l7: "1.07626276 \<le> y powr (1 / 128)"
    using powr_halve_ge[OF l6, of "1.07626276"] by (simp add: power2_eq_square)
  have l8: "1.03743084 \<le> y powr (1 / 256)"
    using powr_halve_ge[OF l7, of "1.03743084"] by (simp add: power2_eq_square)
  have l9: "1.01854348 \<le> y powr (1 / 512)"
    using powr_halve_ge[OF l8, of "1.01854348"] by (simp add: power2_eq_square)
  have l10: "1.00922915 \<le> y powr (1 / 1024)"
    using powr_halve_ge[OF l9, of "1.00922915"] by (simp add: power2_eq_square)
  have pos: "0 < y powr a" for a using y(2) by simp
  have lower: "78.01 \<le> y powr (1 / 2.1590935)"
  proof -
    let ?D = "y powr (1 / 32) * y powr (1 / 256) * y powr (1 / 1024) * y powr (1 / 2048) * y powr (1 / 4096)"
    have D: "?D \<le> 1.34175516 * 1.03743086 * 1.00922917 * 1.00460399 * 1.00229936"
      using u5 u8 u10 u11 u12 by (intro mult_mono) simp_all
    have Dpos: "0 < ?D" using y(2) by simp
    have split: "y powr (1 / 2) = y powr (1 / 2 - 1 / 32 - 1 / 256 - 1 / 1024 - 1 / 2048 - 1 / 4096) * ?D"
      by (simp add: powr_add[symmetric])
    have "(78.01::real) \<le> 110.350004 / (1.34175516 * 1.03743086 * 1.00922917 * 1.00460399 * 1.00229936)"
      by simp
    also have "\<dots> \<le> y powr (1 / 2) / ?D"
      using l1 D Dpos by (intro frac_le) simp_all
    also have "\<dots> = y powr (1 / 2 - 1 / 32 - 1 / 256 - 1 / 1024 - 1 / 2048 - 1 / 4096)"
      using Dpos by (subst split) simp
    also have "\<dots> \<le> y powr (1 / 2.1590935)"
      using y(1) by (intro powr_mono) simp_all
    finally show ?thesis .
  qed
  have upper: "y powr (1 / 2.1590935) < 78.56"
  proof -
    let ?D = "y powr (1 / 32) * y powr (1 / 256) * y powr (1 / 1024)"
    have D: "1.34175515 * 1.03743084 * 1.00922915 \<le> ?D"
      using l5 l8 l10 by (intro mult_mono) simp_all
    have Dpos: "0 < ?D" using y(2) by simp
    have split: "y powr (1 / 2) = y powr (1 / 2 - 1 / 32 - 1 / 256 - 1 / 1024) * ?D"
      by (simp add: powr_add[symmetric])
    have "y powr (1 / 2.1590935) \<le> y powr (1 / 2 - 1 / 32 - 1 / 256 - 1 / 1024)"
      using y(1) by (intro powr_mono) simp_all
    also have "\<dots> = y powr (1 / 2) / ?D"
      using Dpos by (subst split) simp
    also have "\<dots> \<le> 110.350005 / (1.34175515 * 1.03743084 * 1.00922915)"
      using u1 D Dpos pos by (intro frac_le) simp_all
    also have "\<dots> < (78.56::real)" by simp
    finally show ?thesis .
  qed
  show ?thesis using lower upper by (simp add: y_def)
qed

lemma cfh_half_inch_10ft:
  "\<lfloor>((0.5::real) / 10 / 0.00000410606) powr (1 / 2.1590935)\<rfloor> = 78"
  using cfh_half_inch_10ft_bounds by (simp add: floor_eq_iff)

lemma capacity_half_inch_10ft:
  "calculateCapacity_App 0.5 HALF 10 = Fin 78000"
  "calculateCapacity_part002 0.5 HALF 10 = Fin 78000"
proof -
  have "idealCapacity 0.5 HALF 10 = 78000"
    unfolding idealCapacity_simps cfh_half_inch_10ft by simp
  then show "calculateCapacity_App 0.5 HALF 10 = Fin 78000"
    "calculateCapacity_part002 0.5 HALF 10 = Fin 78000"
    by (simp_all add: capacity_formula)
qed


section \<open>The flow recursion\<close>

lemma addFlows_Some_iff:
  "addFlows g flow outs = Some v \<longleftrightarrow>
     (\<exists>vs. list_all2 (\<lambda>out w. g (e_id out) = Some w) outs vs \<and> v = flow + sum_list vs)"
proof (induction outs arbitrary: flow)
  case Nil
  then show ?case by auto
next
  case (Cons out outs)
  show ?case
  proof (cases "g (e_id out)")
    case None
    then show ?thesis by (auto simp: list_all2_Cons1)
  next
    case (Some f)
    then show ?thesis
      by (auto simp: Cons.IH list_all2_Cons1 add.assoc)
  qed
qed

lemma addFlows_mono:
  assumes "\<And>i w. g i = Some w \<Longrightarrow> g' i = Some w"
  shows "addFlows g flow outs = Some v \<Longrightarrow> addFlows g' flow outs = Some v"
proof (induction outs arbitrary: flow)
  case Nil
  then show ?case by simp
next
  case (Cons out outs)
  then show ?case using assms by (auto split: option.splits)
qed

lemma addFlows_all_Some:
  assumes "\<And>out. out \<in> set outs \<Longrightarrow> \<exists>w. g (e_id out) = Some w"
  shows "\<exists>v. addFlows g flow outs = Some v"
  using assms
proof (induction outs arbitrary: flow)
  case Nil
  then show ?case by simp
next
  case (Cons out outs)
  then obtain w where "g (e_id out) = Some w" by (meson list.set_intros(1))
  moreover have "\<exists>v. addFlows g (flow + w) outs = Some v"
    using Cons by (meson list.set_intros(2))
  ultimately show ?case by simp
qed

lemma getFlow_Suc_mono:
  "getFlow fuel nodes edges i = Some v \<Longrightarrow> getFlow (Suc fuel) nodes edges i = Some v"
proof (induction fuel arbitrary: i v)
  case 0
  then show ?case by simp
next
  case (Suc fuel)
  have step: "\<And>j w. getFlow fuel nodes edges j = Some w \<Longrightarrow> getFlow (Suc fuel) nodes edges j = Some w"
    using Suc.IH by blast
  from Suc.prems show ?case
    by (auto simp del: getFlow.simps(2) simp add: getFlow.simps(2)[of "Suc fuel"] getFlow.simps(2)[of fuel] split: option.splits intro: addFlows_mono[OF step])
qed

lemma getFlow_mono:
  "getFlow fuel nodes edges i = Some v \<Longrightarrow> fuel \<le> fuel' \<Longrightarrow> getFlow fuel' nodes edges i = Some v"
  by (induction fuel' ) (auto simp: le_Suc_eq dest: getFlow_Suc_mono simp del: getFlow.simps)

lemma getFlow_unique:
  assumes "getFlow fuel nodes edges i = Some v" "getFlow fuel' nodes edges i = Some w"
  shows "v = w"
proof (cases "fuel \<le> fuel'")
  case True
  from getFlow_mono[OF assms(1) True] assms(2) show ?thesis by simp
next
  case False
  then have "fuel' \<le> fuel" by simp
  from getFlow_mono[OF assms(2) this] assms(1) show ?thesis by simp
qed

lemma getFlow_unfold:
  assumes "distinct (map e_id edges)" "E \<in> set edges" "find (\<lambda>n. n_id n = e_to E) nodes = Some t"
  shows "getFlow (Suc fuel) nodes edges (e_id E) =
           addFlows (getFlow fuel nodes edges) (if n_type t = APPLIANCE then n_btu t else 0)
             (filter (\<lambda>e. e_from e = e_to E) edges)"
proof -
  have "n_id t = e_to E" using find_Some_mem[OF assms(3)] by simp
  then show ?thesis using find_distinct_id[OF assms(1,2)] assms(3) by simp
qed

lemma getFlow_terminates:
  assumes d: "distinct (map e_id edges)"
    and acyc: "\<And>e. e \<in> set edges \<Longrightarrow> h (e_to e) < h (e_from e)"
  shows "E \<in> set edges \<Longrightarrow> h (e_to E) < fuel \<Longrightarrow> \<exists>v. getFlow fuel nodes edges (e_id E) = Some v"
proof (induction fuel arbitrary: E)
  case 0
  then show ?case by simp
next
  case (Suc fuel)
  have fE: "find (\<lambda>e. e_id e = e_id E) edges = Some E"
    using d Suc.prems(1) by (rule find_distinct_id)
  show ?case
  proof (cases "find (\<lambda>n. n_id n = e_to E) nodes")
    case None
    then show ?thesis using fE by simp
  next
    case (Some t)
    then have tid: "n_id t = e_to E" using find_Some_mem[OF Some] by simp
    have inner: "\<exists>w. getFlow fuel nodes edges (e_id out) = Some w"
      if "out \<in> set (filter (\<lambda>e. e_from e = n_id t) edges)" for out
    proof -
      from that have m: "out \<in> set edges" and f: "e_from out = e_to E" using tid by auto
      have "h (e_to out) < h (e_to E)" using acyc[OF m] f by simp
      with Suc.prems(2) have "h (e_to out) < fuel" by simp
      with Suc.IH m show ?thesis by blast
    qed
    have "\<exists>v. addFlows (getFlow fuel nodes edges) flow (filter (\<lambda>e. e_from e = n_id t) edges) = Some v" for flow
      by (rule addFlows_all_Some) (rule inner)
    then
    show ?thesis using fE Some by simp
  qed
qed

lemma getFlow_terminates_acyclicBy:
  assumes "distinct (map e_id edges)" "acyclicBy h edges" "E \<in> set edges" "h (e_to E) < fuel"
  shows "\<exists>v. getFlow fuel nodes edges (e_id E) = Some v"
proof (rule getFlow_terminates[where h = h])
  show "distinct (map e_id edges)" by fact
  show "h (e_to e) < h (e_from e)" if "e \<in> set edges" for e
    using assms(2) that by (simp add: acyclicBy_def list_all_iff)
  show "E \<in> set edges" by fact
  show "h (e_to E) < fuel" by fact
qed

lemma acyclic_fuel:
  assumes "distinct (map e_id edges)" "acyclicBy h edges" "E \<in> set edges"
  shows "\<exists>v. getFlow (Suc (sum_list (map (\<lambda>e. h (e_to e)) edges))) nodes edges (e_id E) = Some v"
proof -
  have "h (e_to E) \<le> sum_list (map (\<lambda>e. h (e_to e)) edges)"
    using assms(3) by (simp add: member_le_sum_list)
  then have "h (e_to E) < Suc (sum_list (map (\<lambda>e. h (e_to e)) edges))" by simp
  with assms show ?thesis by (rule getFlow_terminates_acyclicBy)
qed

lemma getFlow_missing_node:
  assumes "distinct (map e_id edges)" "E \<in> set edges" "find (\<lambda>n. n_id n = e_to E) nodes = None"
  shows "getFlow (Suc fuel) nodes edges (e_id E) = Some 0"
  using find_distinct_id[OF assms(1,2)] assms(3) by simp

lemma getFlow_zero_demand:
  assumes d: "distinct (map e_id edges)" and c: "closedUnder S edges" and z: "noDemandIn S nodes"
  shows "E \<in> set edges \<Longrightarrow> e_to E \<in> S \<Longrightarrow> getFlow fuel nodes edges (e_id E) = Some v \<Longrightarrow> v = 0"
proof (induction fuel arbitrary: E v)
  case 0
  then show ?case by simp
next
  case (Suc fuel)
  show ?case
  proof (cases "find (\<lambda>n. n_id n = e_to E) nodes")
    case None
    then show ?thesis using getFlow_missing_node[OF d Suc.prems(1) None, of fuel] Suc.prems(3) by simp
  next
    case (Some t)
    have t: "t \<in> set nodes" "n_id t = e_to E" using find_Some_mem[OF Some] by simp_all
    have own: "(if n_type t = APPLIANCE then n_btu t else 0) = 0"
      using z t Suc.prems(2) by (auto simp: noDemandIn_def list_all_iff)
    from Suc.prems(3) obtain vs where
      vs: "list_all2 (\<lambda>out w. getFlow fuel nodes edges (e_id out) = Some w) (filter (\<lambda>e. e_from e = e_to E) edges) vs"
      and v: "v = (if n_type t = APPLIANCE then n_btu t else 0) + sum_list vs"
      unfolding getFlow_unfold[OF d Suc.prems(1) Some] addFlows_Some_iff by blast
    have "w = 0" if o: "out \<in> set (filter (\<lambda>e. e_from e = e_to E) edges)"
        and w: "getFlow fuel nodes edges (e_id out) = Some w" for out w
    proof -
      from o have m: "out \<in> set edges" and "e_from out \<in> S" using Suc.prems(2) by auto
      then have "e_to out \<in> S" using c by (auto simp: closedUnder_def list_all_iff)
      with m w show "w = 0" using Suc.IH[of out w] by simp
    qed
    then have "sum_list vs = 0"
      using list_all2_zero_sum[OF vs] by blast
    with v own show ?thesis by simp
  qed
qed


lemma ex_distinct: "distinct (map e_id ex_edges)"
  by (simp add: ex_edges_def)

lemma ex_acyclic: "acyclicBy ex_rank ex_edges"
  by (simp add: acyclicBy_def ex_edges_def ex_rank_def)

lemma getFlow_ex: "getFlow 3 ex_nodes ex_edges ''e1'' = Some 40000"
  by (simp add: ex_nodes_def ex_edges_def numeral_3_eq_3)

lemma getFlow_ex3: "getFlow 3 ex_nodes ex_edges ''e3'' = Some 0"
  by (simp add: ex_nodes_def ex_edges_def numeral_3_eq_3)

section \<open>The validation loop\<close>

lemma validateEdges_lookup:
  "validateEdges verdict fuel nodes edges todo results = Some r \<Longrightarrow>
   r i = (case find (\<lambda>e. e_id e = i) (rev todo) of
            None \<Rightarrow> results i
          | Some e \<Rightarrow> map_option (verdict e) (getFlow fuel nodes edges i))"
proof (induction todo arbitrary: results)
  case Nil
  then show ?case by simp
next
  case (Cons edge todo)
  then show ?case
    by (auto simp: find_append_case split: option.splits)
qed

lemma validateEdges_dom:
  "validateEdges verdict fuel nodes edges todo results = Some r \<Longrightarrow>
   dom r = dom results \<union> e_id ` set todo"
proof (induction todo arbitrary: results)
  case Nil
  then show ?case by simp
next
  case (Cons edge todo)
  then show ?case by (auto split: option.splits)
qed

lemma validateEdges_returns:
  "(\<And>e. e \<in> set todo \<Longrightarrow> \<exists>v. getFlow fuel nodes edges (e_id e) = Some v) \<Longrightarrow>
   \<exists>r. validateEdges verdict fuel nodes edges todo results = Some r"
proof (induction todo arbitrary: results)
  case Nil
  then show ?case by simp
next
  case (Cons edge todo)
  then obtain v where "getFlow fuel nodes edges (e_id edge) = Some v"
    by (meson list.set_intros(1))
  moreover have "\<exists>r. validateEdges verdict fuel nodes edges todo (results(e_id edge \<mapsto> verdict edge v)) = Some r"
    using Cons by (meson list.set_intros(2))
  ultimately show ?case by simp
qed

lemma validateEdges_None_iff:
  "validateEdges verdict fuel nodes edges todo results = None \<longleftrightarrow>
   (\<exists>e\<in>set todo. getFlow fuel nodes edges (e_id e) = None)"
  by (induction todo arbitrary: results) (auto split: option.splits)

lemma validateEdges_mono:
  "validateEdges verdict fuel nodes edges todo results = Some r \<Longrightarrow> fuel \<le> fuel' \<Longrightarrow>
   validateEdges verdict fuel' nodes edges todo results = Some r"
proof (induction todo arbitrary: results)
  case Nil
  then show ?case by simp
next
  case (Cons edge todo)
  from Cons.prems(1) obtain v where v: "getFlow fuel nodes edges (e_id edge) = Some v"
    and rest: "validateEdges verdict fuel nodes edges todo (results(e_id edge \<mapsto> verdict edge v)) = Some r"
    by (auto split: option.splits)
  have "getFlow fuel' nodes edges (e_id edge) = Some v"
    using v Cons.prems(2) by (rule getFlow_mono)
  moreover have "validateEdges verdict fuel' nodes edges todo (results(e_id edge \<mapsto> verdict edge v)) = Some r"
    using rest Cons.prems(2) by (rule Cons.IH)
  ultimately show ?case by simp
qed

lemma validateEdges_unique:
  assumes "validateEdges verdict fuel nodes edges todo results = Some r"
    and "validateEdges verdict fuel' nodes edges todo results = Some r'"
  shows "r = r'"
proof (cases "fuel \<le> fuel'")
  case True
  from validateEdges_mono[OF assms(1) True] assms(2) show ?thesis by simp
next
  case False
  then have "fuel' \<le> fuel" by simp
  from validateEdges_mono[OF assms(2) this] assms(1) show ?thesis by simp
qed

lemma validateEdges_entry:
  assumes "validateEdges verdict fuel nodes edges edges Map.empty = Some r"
    and "distinct (map e_id edges)" and "E \<in> set edges"
  shows "\<exists>flow. getFlow fuel nodes edges (e_id E) = Some flow \<and> r (e_id E) = Some (verdict E flow)"
proof -
  have "getFlow fuel nodes edges (e_id E) \<noteq> None"
    using assms(1,3) validateEdges_None_iff[of verdict fuel nodes edges edges Map.empty] by auto
  then obtain flow where f: "getFlow fuel nodes edges (e_id E) = Some flow" by blast
  have "r (e_id E) = map_option (verdict E) (getFlow fuel nodes edges (e_id E))"
    using validateEdges_lookup[OF assms(1), of "e_id E"] find_rev_distinct_id[OF assms(2,3)] by simp
  with f show ?thesis by simp
qed


lemma validateEdges_total:
  assumes "distinct (map e_id edges)" and "acyclicBy h edges"
  shows "\<exists>fuel r. validateEdges verdict fuel nodes edges edges Map.empty = Some r
           \<and> dom r = e_id ` set edges
           \<and> (\<forall>E\<in>set edges. \<exists>flow. getFlow fuel nodes edges (e_id E) = Some flow
                                   \<and> r (e_id E) = Some (verdict E flow))"
proof -
  let ?fuel = "Suc (sum_list (map (\<lambda>e. h (e_to e)) edges))"
  obtain r where r: "validateEdges verdict ?fuel nodes edges edges Map.empty = Some r"
    using validateEdges_returns[of edges ?fuel nodes edges verdict Map.empty] acyclic_fuel[OF assms]
    by blast
  have "dom r = e_id ` set edges" using validateEdges_dom[OF r] by simp
  moreover have "\<forall>E\<in>set edges. \<exists>flow. getFlow ?fuel nodes edges (e_id E) = Some flow
                                   \<and> r (e_id E) = Some (verdict E flow)"
    using validateEdges_entry[OF r assms(1)] by blast
  ultimately show ?thesis using r by blast
qed

lemma validateSystem_part002_Some:
  "validateSystem_part002 fmt fuel s = Some s' \<longleftrightarrow>
     (\<exists>r. validateEdges (edgeVerdict_part002 fmt (s_pressureDrop s) (s_edges s)) fuel
             (s_nodes s) (s_edges s) (s_edges s) Map.empty = Some r \<and> s' = s\<lparr>s_validation := r\<rparr>)"
  by (auto simp: validateSystem_part002_def split: option.splits)

lemma validateSystem_App_Some:
  "validateSystem_App fuel s = Some s' \<longleftrightarrow>
     (\<exists>r. validateEdges (edgeVerdict_App (s_pressureDrop s)) fuel
             (s_nodes s) (s_edges s) (s_edges s) Map.empty = Some r \<and> s' = s\<lparr>s_validation := r\<rparr>)"
  by (auto simp: validateSystem_App_def split: option.splits)




lemma ex_state_returns:
  "\<exists>s1 s2. validateSystem_part002 (\<lambda>n. []) 3 ex_state = Some s1 \<and> validateSystem_App 3 ex_state = Some s2"
proof -
  have g: "getFlow 3 ex_nodes ex_edges (e_id e) \<noteq> None" if "e \<in> set ex_edges" for e
    using that by (auto simp: ex_nodes_def ex_edges_def numeral_3_eq_3)
  have "\<exists>r. validateEdges verdict 3 ex_nodes ex_edges ex_edges Map.empty = Some r" for verdict
    by (rule validateEdges_returns) (use g in blast)
  then show ?thesis
    by (simp add: validateSystem_part002_Some validateSystem_App_Some ex_state_def)
qed







text \<open>
  The specification's example network: the pipe into the 40000 BTU appliance carries
  40000, has capacity 78000 and is valid, in both App components.
\<close>

lemma example_verdicts:
  "\<exists>fuel s' V. validateSystem_part002 toLocaleString fuel ex_state = Some s'
      \<and> s_validation s' ''e2'' = Some V
      \<and> v_flow V = 40000 \<and> v_capacity V = Fin 78000 \<and> v_isValid V \<and> v_error V = None"
  "\<exists>fuel s' V. validateSystem_App fuel ex_state = Some s'
      \<and> s_validation s' ''e2'' = Some V
      \<and> v_flow V = 40000 \<and> v_capacity V = Fin 78000 \<and> v_isValid V"
proof -
  let ?E = "\<lparr>e_id = ''e2'', e_from = ''j'', e_to = ''a'', e_size = HALF, e_length = 10\<rparr>"
  have m: "?E \<in> set ex_edges" by (simp add: ex_edges_def)
  have g: "getFlow 3 ex_nodes ex_edges ''e2'' = Some 40000"
    by (simp add: ex_nodes_def ex_edges_def numeral_3_eq_3)
  have nsv: "find (\<lambda>e. e_to e = ''j'') ex_edges
             = Some \<lparr>e_id = ''e1'', e_from = ''m'', e_to = ''j'', e_size = HALF, e_length = 10\<rparr>"
    by (simp add: ex_edges_def)
  {
    fix verdict :: "AppEdge \<Rightarrow> real \<Rightarrow> Verdict"
    obtain fuel r where r: "validateEdges verdict fuel ex_nodes ex_edges ex_edges Map.empty = Some r"
      and e: "\<forall>E\<in>set ex_edges. \<exists>flow. getFlow fuel ex_nodes ex_edges (e_id E) = Some flow
                                   \<and> r (e_id E) = Some (verdict E flow)"
      using validateEdges_total[OF ex_distinct ex_acyclic, of verdict ex_nodes] by blast
    from bspec[OF e m] obtain flow where f: "getFlow fuel ex_nodes ex_edges ''e2'' = Some flow"
      and v: "r ''e2'' = Some (verdict ?E flow)" by auto
    have "flow = 40000" using getFlow_unique[OF f g] .
    with r v have "\<exists>fuel r. validateEdges verdict fuel ex_nodes ex_edges ex_edges Map.empty = Some r
                   \<and> r ''e2'' = Some (verdict ?E 40000)" by blast
  }
  note total = this
  have v1: "edgeVerdict_part002 toLocaleString (s_pressureDrop ex_state) ex_edges ?E 40000
            = \<lparr>v_isValid = True, v_flow = 40000, v_capacity = Fin 78000, v_error = None\<rparr>"
    by (simp add: ex_state_def edgeVerdict_part002_def Let_def
        capacity_half_inch_10ft[simplified] nsv indexOf_PIPE_ORDER)
  have v2: "edgeVerdict_App (s_pressureDrop ex_state) ?E 40000
            = \<lparr>v_isValid = True, v_flow = 40000, v_capacity = Fin 78000, v_error = None\<rparr>"
    by (simp add: ex_state_def edgeVerdict_App_def Let_def capacity_half_inch_10ft[simplified])
  have n: "s_nodes ex_state = ex_nodes" "s_edges ex_state = ex_edges" by (simp_all add: ex_state_def)
  from total[of "edgeVerdict_part002 toLocaleString (s_pressureDrop ex_state) ex_edges"]
  obtain fuel r where r: "validateEdges (edgeVerdict_part002 toLocaleString (s_pressureDrop ex_state) ex_edges)
                            fuel ex_nodes ex_edges ex_edges Map.empty = Some r"
    and e2: "r ''e2'' = Some \<lparr>v_isValid = True, v_flow = 40000, v_capacity = Fin 78000, v_error = None\<rparr>"
    unfolding v1 by blast
  have "validateSystem_part002 toLocaleString fuel ex_state = Some (ex_state\<lparr>s_validation := r\<rparr>)"
    by (simp add: validateSystem_part002_def n r)
  then show "\<exists>fuel s' V. validateSystem_part002 toLocaleString fuel ex_state = Some s'
      \<and> s_validation s' ''e2'' = Some V
      \<and> v_flow V = 40000 \<and> v_capacity V = Fin 78000 \<and> v_isValid V \<and> v_error V = None"
    using e2
    by (intro exI[of _ fuel] exI[of _ "ex_state\<lparr>s_validation := r\<rparr>"]
        exI[of _ "\<lparr>v_isValid = True, v_flow = 40000, v_capacity = Fin 78000, v_error = None\<rparr>"]) simp
  from total[of "edgeVerdict_App (s_pressureDrop ex_state)"]
  obtain fuel r where r: "validateEdges (edgeVerdict_App (s_pressureDrop ex_state))
                            fuel ex_nodes ex_edges ex_edges Map.empty = Some r"
    and e2: "r ''e2'' = Some \<lparr>v_isValid = True, v_flow = 40000, v_capacity = Fin 78000, v_error = None\<rparr>"
    unfolding v2 by blast
  have "validateSystem_App fuel ex_state = Some (ex_state\<lparr>s_validation := r\<rparr>)"
    by (simp add: validateSystem_App_def n r)
  then show "\<exists>fuel s' V. validateSystem_App fuel ex_state = Some s'
      \<and> s_validation s' ''e2'' = Some V
      \<and> v_flow V = 40000 \<and> v_capacity V = Fin 78000 \<and> v_isValid V"
    using e2
    by (intro exI[of _ fuel] exI[of _ "ex_state\<lparr>s_validation := r\<rparr>"]
        exI[of _ "\<lparr>v_isValid = True, v_flow = 40000, v_capacity = Fin 78000, v_error = None\<rparr>"]) simp
qed

section \<open>Verdict validity\<close>




section \<open>Downstream demand\<close>

text \<open>
  C3. Let \<open>E\<close> be an edge of a graph with unique edge ids whose destination node \<open>t\<close>
  exists. If the edges have no directed cycle, getFlow returns a flow for \<open>E\<close>. Whenever
  getFlow returns a flow \<open>v\<close> for \<open>E\<close>, it returns one for every edge that leaves \<open>t\<close>, and
  \<open>v\<close> is the btu of \<open>t\<close> if \<open>t\<close> is an APPLIANCE (0 otherwise) plus the sum of those
  flows. If moreover the subtree below \<open>E\<close> (any set of node ids that holds \<open>E\<close>'s
  destination and is closed under the edges) has no appliance with a demand, then
  \<open>v = 0\<close>.
\<close>

theorem getFlow_is_downstream_sum:
  assumes "distinct (map e_id edges)" and "E \<in> set edges"
    and "find (\<lambda>n. n_id n = e_to E) nodes = Some t"
  shows "(acyclicBy h edges \<longrightarrow> (\<exists>fuel v. getFlow fuel nodes edges (e_id E) = Some v))
       \<and> (\<forall>fuel v. getFlow fuel nodes edges (e_id E) = Some v \<longrightarrow>
             (\<exists>vs. list_all2 (\<lambda>out w. getFlow fuel nodes edges (e_id out) = Some w)
                     (filter (\<lambda>e. e_from e = e_to E) edges) vs
                  \<and> v = (if n_type t = APPLIANCE then n_btu t else 0) + sum_list vs)
           \<and> (e_to E \<in> S \<and> closedUnder S edges \<and> noDemandIn S nodes \<longrightarrow> v = 0))"
proof (intro conjI allI impI)
  assume "acyclicBy h edges"
  with acyclic_fuel[OF assms(1) _ assms(2), of h nodes]
  show "\<exists>fuel v. getFlow fuel nodes edges (e_id E) = Some v" by blast
next
  fix fuel v
  assume g: "getFlow fuel nodes edges (e_id E) = Some v"
  obtain fuel' where f: "fuel = Suc fuel'" using g by (cases fuel) simp_all
  from g obtain vs where
    vs: "list_all2 (\<lambda>out w. getFlow fuel' nodes edges (e_id out) = Some w) (filter (\<lambda>e. e_from e = e_to E) edges) vs"
    and v: "v = (if n_type t = APPLIANCE then n_btu t else 0) + sum_list vs"
    unfolding f getFlow_unfold[OF assms(1,2,3)] addFlows_Some_iff by blast
  have "list_all2 (\<lambda>out w. getFlow fuel nodes edges (e_id out) = Some w) (filter (\<lambda>e. e_from e = e_to E) edges) vs"
    using vs unfolding f by (rule list_all2_mono) (rule getFlow_Suc_mono)
  with v show "\<exists>vs. list_all2 (\<lambda>out w. getFlow fuel nodes edges (e_id out) = Some w)
                 (filter (\<lambda>e. e_from e = e_to E) edges) vs
              \<and> v = (if n_type t = APPLIANCE then n_btu t else 0) + sum_list vs" by blast
next
  fix fuel v
  assume g: "getFlow fuel nodes edges (e_id E) = Some v"
    and s: "e_to E \<in> S \<and> closedUnder S edges \<and> noDemandIn S nodes"
  show "v = 0"
    using getFlow_zero_demand[OF assms(1) _ _ assms(2) _ g, of S] s by blast
qed

theorem getFlow_is_downstream_sum_witness:
  "(\<exists>fuel v. getFlow fuel ex_nodes ex_edges ''e1'' = Some v)
   \<and> getFlow 3 ex_nodes ex_edges ''e1'' = Some 40000
   \<and> (\<exists>vs. list_all2 (\<lambda>out w. getFlow 3 ex_nodes ex_edges (e_id out) = Some w)
               (filter (\<lambda>e. e_from e = ''j'') ex_edges) vs
            \<and> (40000::real) = 0 + sum_list vs)
   \<and> closedUnder {''k''} ex_edges \<and> noDemandIn {''k''} ex_nodes
   \<and> getFlow 3 ex_nodes ex_edges ''e3'' = Some 0"
proof -
  let ?E1 = "\<lparr>e_id = ''e1'', e_from = ''m'', e_to = ''j'', e_size = HALF, e_length = 10\<rparr>"
  let ?j = "\<lparr>n_id = ''j'', n_type = JUNCTION, n_x = 0, n_y = 0, n_name = ''T-Junction'', n_btu = 0\<rparr>"
  let ?E3 = "\<lparr>e_id = ''e3'', e_from = ''j'', e_to = ''k'', e_size = HALF, e_length = 10\<rparr>"
  let ?k = "\<lparr>n_id = ''k'', n_type = JUNCTION, n_x = 0, n_y = 0, n_name = ''T-Junction'', n_btu = 0\<rparr>"
  have m1: "?E1 \<in> set ex_edges" and m3: "?E3 \<in> set ex_edges" by (simp_all add: ex_edges_def)
  have t1: "find (\<lambda>n. n_id n = e_to ?E1) ex_nodes = Some ?j"
    and t3: "find (\<lambda>n. n_id n = e_to ?E3) ex_nodes = Some ?k" by (simp_all add: ex_nodes_def)
  have g1: "getFlow 3 ex_nodes ex_edges (e_id ?E1) = Some 40000" using getFlow_ex by simp
  obtain v where g3: "getFlow 3 ex_nodes ex_edges (e_id ?E3) = Some v" using getFlow_ex3 by simp
  have c: "closedUnder {''k''} ex_edges" by (simp add: closedUnder_def ex_edges_def)
  have z: "noDemandIn {''k''} ex_nodes" by (simp add: noDemandIn_def ex_nodes_def)
  note A = getFlow_is_downstream_sum[OF ex_distinct m1 t1, of ex_rank "{}"]
  note B = getFlow_is_downstream_sum[OF ex_distinct m3 t3, of ex_rank "{''k''}"]
  have r: "\<exists>fuel v. getFlow fuel ex_nodes ex_edges ''e1'' = Some v"
    using A ex_acyclic by simp
  have "\<exists>vs. list_all2 (\<lambda>out w. getFlow 3 ex_nodes ex_edges (e_id out) = Some w)
               (filter (\<lambda>e. e_from e = e_to ?E1) ex_edges) vs
            \<and> (40000::real) = (if n_type ?j = APPLIANCE then n_btu ?j else 0) + sum_list vs"
    using A g1 by blast
  then have sum: "\<exists>vs. list_all2 (\<lambda>out w. getFlow 3 ex_nodes ex_edges (e_id out) = Some w)
               (filter (\<lambda>e. e_from e = ''j'') ex_edges) vs
            \<and> (40000::real) = 0 + sum_list vs" by simp
  have "v = 0" using B g3 c z by (simp del: getFlow.simps)
  with g3 have "getFlow 3 ex_nodes ex_edges ''e3'' = Some 0" by simp
  with r sum c z getFlow_ex show ?thesis by blast
qed

section \<open>Termination of getFlow\<close>




section \<open>validateSystem returns a complete verdict map\<close>




section \<open>Determinism and frame\<close>

text \<open>
  C8. The verdict map validateSystem stores is a function of nodes, edges and
  pressureDrop alone: two states that agree on these get the same map, whatever else they
  hold (the previous map, the selection) and whatever recursion depth the stack allows;
  and validating the validated state again changes nothing. This holds in both App
  components (number formatting, \<open>toLocaleString\<close>, being the same in both calls).
\<close>

theorem validateSystem_deterministic:
  assumes "s_nodes s = s_nodes t" and "s_edges s = s_edges t"
    and "s_pressureDrop s = s_pressureDrop t"
  shows "map_option s_validation (validateSystem_part002 toLocaleString fuel s)
           = map_option s_validation (validateSystem_part002 toLocaleString fuel t)
       \<and> map_option s_validation (validateSystem_App fuel s)
           = map_option s_validation (validateSystem_App fuel t)
       \<and> (\<forall>fuel' s1 t1. validateSystem_part002 toLocaleString fuel s = Some s1
             \<and> validateSystem_part002 toLocaleString fuel' t = Some t1
             \<longrightarrow> s_validation s1 = s_validation t1
                 \<and> validateSystem_part002 toLocaleString fuel s1 = Some s1)
       \<and> (\<forall>fuel' s1 t1. validateSystem_App fuel s = Some s1
             \<and> validateSystem_App fuel' t = Some t1
             \<longrightarrow> s_validation s1 = s_validation t1
                 \<and> validateSystem_App fuel s1 = Some s1)"
proof (intro conjI allI impI)
  show "map_option s_validation (validateSystem_part002 toLocaleString fuel s)
           = map_option s_validation (validateSystem_part002 toLocaleString fuel t)"
    by (simp add: validateSystem_part002_def assms split: option.splits)
  show "map_option s_validation (validateSystem_App fuel s)
           = map_option s_validation (validateSystem_App fuel t)"
    by (simp add: validateSystem_App_def assms split: option.splits)
next
  fix fuel' s1 t1
  assume a: "validateSystem_part002 toLocaleString fuel s = Some s1
             \<and> validateSystem_part002 toLocaleString fuel' t = Some t1"
  let ?v = "edgeVerdict_part002 toLocaleString (s_pressureDrop s) (s_edges s)"
  from a obtain r where r: "validateEdges ?v fuel (s_nodes s) (s_edges s) (s_edges s) Map.empty = Some r"
    and s1: "s1 = s\<lparr>s_validation := r\<rparr>"
    unfolding validateSystem_part002_Some by blast
  from a obtain r' where r': "validateEdges ?v fuel' (s_nodes s) (s_edges s) (s_edges s) Map.empty = Some r'"
    and t1: "t1 = t\<lparr>s_validation := r'\<rparr>"
    unfolding validateSystem_part002_Some assms[symmetric] by blast
  have "r = r'" using r r' by (rule validateEdges_unique)
  then show "s_validation s1 = s_validation t1" by (simp add: s1 t1)
  show "validateSystem_part002 toLocaleString fuel s1 = Some s1"
    by (simp add: validateSystem_part002_def s1 r)
next
  fix fuel' s1 t1
  assume a: "validateSystem_App fuel s = Some s1 \<and> validateSystem_App fuel' t = Some t1"
  let ?v = "edgeVerdict_App (s_pressureDrop s)"
  from a obtain r where r: "validateEdges ?v fuel (s_nodes s) (s_edges s) (s_edges s) Map.empty = Some r"
    and s1: "s1 = s\<lparr>s_validation := r\<rparr>"
    unfolding validateSystem_App_Some by blast
  from a obtain r' where r': "validateEdges ?v fuel' (s_nodes s) (s_edges s) (s_edges s) Map.empty = Some r'"
    and t1: "t1 = t\<lparr>s_validation := r'\<rparr>"
    unfolding validateSystem_App_Some assms[symmetric] by blast
  have "r = r'" using r r' by (rule validateEdges_unique)
  then show "s_validation s1 = s_validation t1" by (simp add: s1 t1)
  show "validateSystem_App fuel s1 = Some s1"
    by (simp add: validateSystem_App_def s1 r)
qed

theorem validateSystem_deterministic_witness:
  "\<exists>s1. validateSystem_part002 (\<lambda>n. []) 3 ex_state = Some s1
       \<and> map_option s_validation (validateSystem_part002 (\<lambda>n. []) 3 ex_state_stale) = Some (s_validation s1)
       \<and> validateSystem_part002 (\<lambda>n. []) 3 s1 = Some s1"
proof -
  from ex_state_returns obtain s1 where s1: "validateSystem_part002 (\<lambda>n. []) 3 ex_state = Some s1" by blast
  have a: "s_nodes ex_state = s_nodes ex_state_stale" "s_edges ex_state = s_edges ex_state_stale"
    "s_pressureDrop ex_state = s_pressureDrop ex_state_stale"
    by (simp_all add: ex_state_stale_def)
  note d = validateSystem_deterministic[OF a, of "\<lambda>n. []" 3]
  from d s1 have "map_option s_validation (validateSystem_part002 (\<lambda>n. []) 3 ex_state_stale) = Some (s_validation s1)"
    by simp
  moreover from this obtain t1 where t1: "validateSystem_part002 (\<lambda>n. []) 3 ex_state_stale = Some t1" by blast
  from d s1 t1 have "validateSystem_part002 (\<lambda>n. []) 3 s1 = Some s1" by blast
  ultimately show ?thesis using s1 by blast
qed

text \<open>
  C9. A call of validateSystem that returns leaves nodes, edges, pressureDrop and the
  selection as they were: the state after the call is the state before it with a new
  verdict map.
\<close>

theorem validateSystem_frame:
  assumes "validateSystem_part002 toLocaleString fuel s = Some s' \<or> validateSystem_App fuel s = Some s'"
  shows "s_nodes s' = s_nodes s \<and> s_edges s' = s_edges s \<and> s_pressureDrop s' = s_pressureDrop s
       \<and> s_selectedPipeSize s' = s_selectedPipeSize s \<and> s_selectedId s' = s_selectedId s
       \<and> s' = s\<lparr>s_validation := s_validation s'\<rparr>"
  using assms unfolding validateSystem_part002_Some validateSystem_App_Some by auto

theorem validateSystem_frame_witness:
  "\<exists>s'. validateSystem_App 3 ex_state = Some s' \<and> s_nodes s' = ex_nodes \<and> s_edges s' = ex_edges
        \<and> s_pressureDrop s' = 0.5"
proof -
  from ex_state_returns obtain s' where s': "validateSystem_App 3 ex_state = Some s'" by blast
  then have "validateSystem_part002 (\<lambda>n. []) 3 ex_state = Some s' \<or> validateSystem_App 3 ex_state = Some s'"
    by simp
  from validateSystem_frame[OF this] s' show ?thesis by (simp add: ex_state_def)
qed

section \<open>Capacity: the formula\<close>



section \<open>Capacity: degenerate lengths and monotonicity\<close>


text \<open>
  C7 (as amended), in exact arithmetic. For a pressure drop that is not negative,
  calculateCapacity is non-increasing in the length over lengths > 0, for every size; and
  as long as the pressure drop is at most 50 times the length it is non-decreasing in the
  size's index in PIPE_ORDER. Both App components.
\<close>

theorem calculateCapacity_monotone:
  assumes "0 \<le> pressureDrop" and "0 < l1" and "l1 \<le> l2"
  shows "js_le (calculateCapacity_App pressureDrop size1 l2) (calculateCapacity_App pressureDrop size1 l1)
       \<and> js_le (calculateCapacity_part002 pressureDrop size1 l2)
               (calculateCapacity_part002 pressureDrop size1 l1)
       \<and> (pressureDrop \<le> 50 * l1 \<and> indexOf PIPE_ORDER size1 \<le> indexOf PIPE_ORDER size2 \<longrightarrow>
            js_le (calculateCapacity_App pressureDrop size1 l1)
                  (calculateCapacity_App pressureDrop size2 l1)
          \<and> js_le (calculateCapacity_part002 pressureDrop size1 l1)
                  (calculateCapacity_part002 pressureDrop size2 l1))"
proof -
  have l2: "0 < l2" using assms by simp
  note f1 = capacity_formula[OF assms(2,1)]
  note f2 = capacity_formula[OF l2 assms(1)]
  have len: "idealCapacity pressureDrop size1 l2 \<le> idealCapacity pressureDrop size1 l1"
    using assms by (rule idealCapacity_antimono_length)
  have sz: "idealCapacity pressureDrop size1 l1 \<le> idealCapacity pressureDrop size2 l1"
    if "pressureDrop \<le> 50 * l1" "indexOf PIPE_ORDER size1 \<le> indexOf PIPE_ORDER size2"
    using assms(2,1) that by (rule idealCapacity_mono_size)
  show ?thesis using len sz by (simp add: f1 f2)
qed

theorem calculateCapacity_monotone_witness:
  "js_le (calculateCapacity_App 0.5 HALF 20) (calculateCapacity_App 0.5 HALF 10)
   \<and> js_le (calculateCapacity_part002 0.5 HALF 20) (calculateCapacity_part002 0.5 HALF 10)
   \<and> js_le (calculateCapacity_App 0.5 HALF 10) (calculateCapacity_App 0.5 ONE 10)
   \<and> js_le (calculateCapacity_part002 0.5 HALF 10) (calculateCapacity_part002 0.5 ONE 10)"
  using calculateCapacity_monotone[of "0.5" 10 20 HALF ONE]
  by (simp add: indexOf_PIPE_ORDER)

text \<open>
  Beyond that range the fitted curves cross: at pressure drop 1000 and length 1 the 1
  inch pipe gets at least 110000 * 1000 and the 1-1/4 inch pipe less. With a negative
  pressure drop every capacity is NaN, which no comparison orders.
\<close>

theorem calculateCapacity_size_order_counterexample:
  "js_gt (calculateCapacity_App 1000 ONE 1) (calculateCapacity_App 1000 ONE_AND_QUARTER 1)
   \<and> js_gt (calculateCapacity_part002 1000 ONE 1) (calculateCapacity_part002 1000 ONE_AND_QUARTER 1)
   \<and> indexOf PIPE_ORDER ONE < indexOf PIPE_ORDER ONE_AND_QUARTER
   \<and> \<not> js_le (calculateCapacity_App (- 0.5) HALF 20) (calculateCapacity_App (- 0.5) HALF 10)"
proof (intro conjI)
  have a: "(110000::int) \<le> \<lfloor>((1000::real) / 1 / 0.0000010746) powr (1 / 1.77654817)\<rfloor>"
    using cfh_1_at_1000 by (simp add: le_floor_iff)
  have b: "\<lfloor>((1000::real) / 1 / 0.00000011678553403503) powr (1 / 1.992081557687)\<rfloor> < (110000::int)"
    using cfh_1_1_4_at_1000 by (simp add: floor_less_iff)
  have lt: "idealCapacity 1000 ONE_AND_QUARTER 1 < idealCapacity 1000 ONE 1"
    unfolding idealCapacity_simps using a b by linarith
  show "js_gt (calculateCapacity_App 1000 ONE 1) (calculateCapacity_App 1000 ONE_AND_QUARTER 1)"
    using lt by (simp add: capacity_formula)
  show "js_gt (calculateCapacity_part002 1000 ONE 1) (calculateCapacity_part002 1000 ONE_AND_QUARTER 1)"
    using lt by (simp add: capacity_formula)
  show "indexOf PIPE_ORDER ONE < indexOf PIPE_ORDER ONE_AND_QUARTER"
    by (simp add: indexOf_PIPE_ORDER)
  show "\<not> js_le (calculateCapacity_App (- 0.5) HALF 20) (calculateCapacity_App (- 0.5) HALF 10)"
    unfolding capacity_negative_drop by simp
qed

section \<open>Adding an edge\<close>

text \<open>
  handleAddEdge of the App component of part_002 keeps the structural invariants, so every
  state it reaches from a graph without edges satisfies them (node ids being unique).
  It does not keep the graph acyclic: the two-junction cycle is reachable.
\<close>

lemma handleAddEdge_nodes: "s_nodes (handleAddEdge newId fromId toId s) = s_nodes s"
  by (simp add: handleAddEdge_def split: option.splits)

lemma handleAddEdge_preserves_invariants:
  assumes d: "distinct (map n_id (s_nodes s))"
    and inv: "structuralInvariants (s_nodes s) (s_edges s)"
  shows "structuralInvariants (s_nodes (handleAddEdge newId fromId toId s))
           (s_edges (handleAddEdge newId fromId toId s))"
proof (cases "s_edges (handleAddEdge newId fromId toId s) = s_edges s")
  case True
  then show ?thesis using inv by (simp add: handleAddEdge_nodes)
next
  case False
  then obtain fromNode where ne: "fromId \<noteq> toId"
    and fn: "find (\<lambda>n. n_id n = fromId) (s_nodes s) = Some fromNode"
    and noin: "find (\<lambda>e. e_to e = toId) (s_edges s) = None"
    and junc: "\<not> (n_type fromNode = JUNCTION \<and> 2 \<le> length (filter (\<lambda>e. e_from e = fromId) (s_edges s)))"
    and app: "n_type fromNode \<noteq> APPLIANCE"
    by (auto simp: handleAddEdge_def split: option.splits if_splits)
  let ?new = "\<lparr>e_id = newId, e_from = fromId, e_to = toId, e_size = s_selectedPipeSize s, e_length = 10\<rparr>"
  have eq: "s_edges (handleAddEdge newId fromId toId s) = s_edges s @ [?new]"
    using ne fn noin junc app by (simp add: handleAddEdge_def)
  have fnm: "fromNode \<in> set (s_nodes s)" "n_id fromNode = fromId"
    using find_Some_mem[OF fn] by simp_all
  have i1: "list_all (\<lambda>e. e_from e \<noteq> e_to e) (s_edges s @ [?new])"
    using inv ne by (simp add: structuralInvariants_def)
  have "toId \<notin> e_to ` set (s_edges s)"
    using noin by (auto simp: find_None_iff)
  then have i2: "distinct (map e_to (s_edges s @ [?new]))"
    using inv by (simp add: structuralInvariants_def)
  have i3: "list_all (\<lambda>n. case n_type n of
                        JUNCTION \<Rightarrow> length (filter (\<lambda>e. e_from e = n_id n) (s_edges s @ [?new])) \<le> 2
                      | APPLIANCE \<Rightarrow> filter (\<lambda>e. e_from e = n_id n) (s_edges s @ [?new]) = []
                      | METER \<Rightarrow> True
                      | MANIFOLD \<Rightarrow> True) (s_nodes s)"
    unfolding list_all_iff
  proof
    fix n assume n: "n \<in> set (s_nodes s)"
    have old: "case n_type n of
                 JUNCTION \<Rightarrow> length (filter (\<lambda>e. e_from e = n_id n) (s_edges s)) \<le> 2
               | APPLIANCE \<Rightarrow> filter (\<lambda>e. e_from e = n_id n) (s_edges s) = []
               | METER \<Rightarrow> True
               | MANIFOLD \<Rightarrow> True"
      using inv n by (simp add: structuralInvariants_def list_all_iff)
    show "case n_type n of
                        JUNCTION \<Rightarrow> length (filter (\<lambda>e. e_from e = n_id n) (s_edges s @ [?new])) \<le> 2
                      | APPLIANCE \<Rightarrow> filter (\<lambda>e. e_from e = n_id n) (s_edges s @ [?new]) = []
                      | METER \<Rightarrow> True
                      | MANIFOLD \<Rightarrow> True"
    proof (cases "n_id n = fromId")
      case True
      have "n = fromNode"
        using find_distinct_node[OF d n] fn True by simp
      with junc app old True show ?thesis
        by (cases "n_type fromNode") auto
    next
      case False
      with old show ?thesis by (cases "n_type n") auto
    qed
  qed
  show ?thesis
    unfolding eq handleAddEdge_nodes structuralInvariants_def using i1 i2 i3 by simp
qed

lemma reachable_nodes: "reachableByAddEdge s0 s \<Longrightarrow> s_nodes s = s_nodes s0"
  by (induction rule: reachableByAddEdge.induct) (simp_all add: handleAddEdge_nodes)

lemma handleAddEdge_reachable_invariants:
  assumes "distinct (map n_id (s_nodes s0))" and "reachableByAddEdge s0 s"
  shows "structuralInvariants (s_nodes s) (s_edges s)"
  using assms(2)
proof (induction rule: reachableByAddEdge.induct)
  case start
  then show ?case
    by (auto simp: structuralInvariants_def list_all_iff split: NodeType.splits)
next
  case (add s newId fromId toId)
  have "distinct (map n_id (s_nodes s))" using assms(1) reachable_nodes[OF add.hyps] by simp
  then show ?case using add.IH by (rule handleAddEdge_preserves_invariants)
qed

lemma cycle_reachable_by_handleAddEdge:
  "s_edges (handleAddEdge ''e2'' ''b'' ''a'' (handleAddEdge ''e1'' ''a'' ''b''
      \<lparr>s_nodes = cyc_nodes, s_edges = [], s_pressureDrop = 0.5,
       s_selectedPipeSize = HALF, s_selectedId = None, s_validation = Map.empty\<rparr>)) = cyc_edges"
  by (simp add: handleAddEdge_def cyc_nodes_def cyc_edges_def)

text \<open>
  C10. The onAddEdge callback of src/App.tsx appends the edge unchecked. From the example's
  nodes, connecting j to a and then k to a gives the appliance two inbound edges, and
  connecting a to j gives it an outbound edge; handleAddEdge rejects both edits.
\<close>

theorem onAddEdge_App_breaks_invariants:
  "s_edges (onAddEdge_App ''p2'' ''k'' ''a'' (onAddEdge_App ''p1'' ''j'' ''a'' empty_state))
     = [\<lparr>e_id = ''p1'', e_from = ''j'', e_to = ''a'', e_size = HALF, e_length = 10\<rparr>,
        \<lparr>e_id = ''p2'', e_from = ''k'', e_to = ''a'', e_size = HALF, e_length = 10\<rparr>]
   \<and> \<not> structuralInvariants ex_nodes
         (s_edges (onAddEdge_App ''p2'' ''k'' ''a'' (onAddEdge_App ''p1'' ''j'' ''a'' empty_state)))
   \<and> \<not> structuralInvariants ex_nodes
         (s_edges (onAddEdge_App ''p3'' ''a'' ''j'' empty_state))
   \<and> s_edges (handleAddEdge ''p2'' ''k'' ''a'' (handleAddEdge ''p1'' ''j'' ''a'' empty_state))
       = [\<lparr>e_id = ''p1'', e_from = ''j'', e_to = ''a'', e_size = HALF, e_length = 10\<rparr>]
   \<and> s_edges (handleAddEdge ''p3'' ''a'' ''j'' empty_state) = []"
  by (simp add: onAddEdge_App_def handleAddEdge_def empty_state_def ex_nodes_def
      structuralInvariants_def)

end
